theory Spec2Isabelle
  imports Main "HOL-Library.Product_Lexorder"
begin

section \<open>The HTCondor job log reader (\<^verbatim>\<open>log_reader/read_log.py\<close>)\<close>

text \<open>
  The module reads one HTCondor event log, cuts it into chunks at the lines that start
  with three dots, and folds the chunks it recognises into one job report.

  Text is modelled by \<^typ>\<open>string\<close>: a \<^typ>\<open>char\<close> stands for the code point of the same
  number (0 to 255) of a Python 3 \<^verbatim>\<open>str\<close>, and the character classes below are Python's
  on these code points. Exceptions are values of \<open>error\<close>, and a function that can raise
  returns \<open>error + 'a\<close> with \<open>Inl\<close> for the exception.
\<close>

subsection \<open>Exceptions\<close>

datatype error = ValueError | IndexError | KeyError | IOError

subsection \<open>String primitives of Python\<close>

text \<open>\<^verbatim>\<open>c.isspace()\<close>: tab to carriage return, the four separators 28 to 31, the blank,
  NEL (133) and the no-break space (160).\<close>

definition isspace :: "char \<Rightarrow> bool" where
  "isspace c =
     (let n = (of_char c :: nat)
      in (9 \<le> n \<and> n \<le> 13) \<or> (28 \<le> n \<and> n \<le> 32) \<or> n = 133 \<or> n = 160)"

text \<open>\<^verbatim>\<open>c.isdecimal()\<close>, also the class \<^verbatim>\<open>\d\<close> of a regular expression on \<^verbatim>\<open>str\<close>.\<close>

definition isdecimal :: "char \<Rightarrow> bool" where
  "isdecimal c = (let n = (of_char c :: nat) in 48 \<le> n \<and> n \<le> 57)"

text \<open>\<^verbatim>\<open>c.isdigit()\<close>: the decimal digits and the superscript digits two, three (178, 179)
  and one (185), which \<^verbatim>\<open>int\<close> does not accept.\<close>

definition isdigit_char :: "char \<Rightarrow> bool" where
  "isdigit_char c =
     (let n = (of_char c :: nat) in isdecimal c \<or> n = 178 \<or> n = 179 \<or> n = 185)"

text \<open>\<^verbatim>\<open>s.isdigit()\<close>: false on the empty string.\<close>

definition isdigit :: "string \<Rightarrow> bool" where
  "isdigit s = (s \<noteq> [] \<and> list_all isdigit_char s)"

definition digit_val :: "char \<Rightarrow> int" where
  "digit_val c = int (of_char c) - 48"

text \<open>\<^verbatim>\<open>int(s)\<close> on a string of digits: the decimal value when every character is a
  decimal digit, \<^verbatim>\<open>ValueError\<close> otherwise. (The reader calls \<^verbatim>\<open>int\<close> only on tokens for
  which \<^verbatim>\<open>isdigit\<close> holds; signs, blanks and underscores do not occur there.)\<close>

definition int_of_digits :: "string \<Rightarrow> error + int" where
  "int_of_digits s =
     (if s \<noteq> [] \<and> list_all isdecimal s
      then Inr (foldl (\<lambda>n c. 10 * n + digit_val c) 0 s)
      else Inl ValueError)"

text \<open>\<^verbatim>\<open>s.startswith(p)\<close>.\<close>

fun startswith :: "string \<Rightarrow> string \<Rightarrow> bool" where
  "startswith [] s = True"
| "startswith (p # ps) [] = False"
| "startswith (p # ps) (c # cs) = (p = c \<and> startswith ps cs)"

text \<open>\<^verbatim>\<open>p in s\<close>: \<open>p\<close> is a prefix of \<open>s\<close> from some position.\<close>

fun contains :: "string \<Rightarrow> string \<Rightarrow> bool" where
  "contains p [] = (p = [])"
| "contains p (c # cs) = (startswith p (c # cs) \<or> contains p cs)"

text \<open>\<^verbatim>\<open>s.split(sep)\<close> for a separator of one character: the pieces between the
  separators, empty pieces kept, never an empty list.\<close>

fun split_on :: "char \<Rightarrow> string \<Rightarrow> string list" where
  "split_on sep [] = [[]]"
| "split_on sep (c # cs) =
     (if c = sep then [] # split_on sep cs
      else (case split_on sep cs of
              [] \<Rightarrow> [[c]]
            | w # ws \<Rightarrow> (c # w) # ws))"

text \<open>\<^verbatim>\<open>s.split()\<close>: the maximal runs of characters that are not whitespace. The
  first argument is the token being read.\<close>

fun split_ws_from :: "string \<Rightarrow> string \<Rightarrow> string list" where
  "split_ws_from w [] = (if w = [] then [] else [w])"
| "split_ws_from w (c # cs) =
     (if isspace c
      then (if w = [] then split_ws_from [] cs else w # split_ws_from [] cs)
      else split_ws_from (w @ [c]) cs)"

definition split_ws :: "string \<Rightarrow> string list" where
  "split_ws s = split_ws_from [] s"

text \<open>\<^verbatim>\<open>xs[0]\<close> raises \<^verbatim>\<open>IndexError\<close> on the empty list.\<close>

definition first_item :: "'a list \<Rightarrow> error + 'a" where
  "first_item xs = (case xs of [] \<Rightarrow> Inl IndexError | x # _ \<Rightarrow> Inr x)"

subsection \<open>\<^verbatim>\<open>parse_resources\<close>\<close>

text \<open>\<^verbatim>\<open>[int(s) for s in tokens if s.isdigit()]\<close>: the comprehension stops at the first
  token on which \<^verbatim>\<open>int\<close> raises.\<close>

fun ints_of :: "string list \<Rightarrow> error + int list" where
  "ints_of [] = Inr []"
| "ints_of (s # ss) =
     (if isdigit s
      then (case int_of_digits s of
              Inl e \<Rightarrow> Inl e
            | Inr n \<Rightarrow> (case ints_of ss of Inl e \<Rightarrow> Inl e | Inr ns \<Rightarrow> Inr (n # ns)))
      else ints_of ss)"

definition numbers :: "string \<Rightarrow> error + int list" where
  "numbers line = ints_of (split_ws line)"

text \<open>One of the two \<^verbatim>\<open>if\<close> statements of the loop body: when the line contains the
  word, the first number of the line is stored under the key.\<close>

definition take_usage ::
  "string \<Rightarrow> string \<Rightarrow> string \<Rightarrow> (string \<rightharpoonup> int) \<Rightarrow> error + (string \<rightharpoonup> int)" where
  "take_usage word key line usage =
     (if contains word line
      then (case numbers line of
              Inl e \<Rightarrow> Inl e
            | Inr ns \<Rightarrow> (case first_item ns of
                          Inl e \<Rightarrow> Inl e
                        | Inr n \<Rightarrow> Inr (usage(key \<mapsto> n))))
      else Inr usage)"

definition resources_line :: "string \<Rightarrow> (string \<rightharpoonup> int) \<Rightarrow> error + (string \<rightharpoonup> int)" where
  "resources_line line usage =
     (case take_usage ''Disk'' ''diskUsage'' line usage of
        Inl e \<Rightarrow> Inl e
      | Inr usage' \<Rightarrow> take_usage ''Memory'' ''memUsage'' line usage')"

fun resources_loop :: "string list \<Rightarrow> (string \<rightharpoonup> int) \<Rightarrow> error + (string \<rightharpoonup> int)" where
  "resources_loop [] usage = Inr usage"
| "resources_loop (line # rest) usage =
     (case resources_line line usage of
        Inl e \<Rightarrow> Inl e
      | Inr usage' \<Rightarrow> resources_loop rest usage')"

definition parse_resources :: "string \<Rightarrow> error + (string \<rightharpoonup> int)" where
  "parse_resources chunk = resources_loop (split_on (CHR 0x0A) chunk) Map.empty"

subsection \<open>Dates and times of the \<^verbatim>\<open>datetime\<close> module\<close>

text \<open>A \<^verbatim>\<open>datetime\<close> without time zone. The microsecond is left out: \<^verbatim>\<open>strptime\<close> with a
  format that has no \<^verbatim>\<open>%f\<close> sets it to 0, \<^verbatim>\<open>replace(year=...)\<close> keeps it, and of the
  current moment only the year and the month are read.\<close>

record datetime =
  year :: int
  month :: int
  day :: int
  hour :: int
  minute :: int
  second :: int

definition is_leap :: "int \<Rightarrow> bool" where
  "is_leap y = (y mod 4 = 0 \<and> (y mod 100 \<noteq> 0 \<or> y mod 400 = 0))"

definition days_in_month :: "int \<Rightarrow> int \<Rightarrow> int" where
  "days_in_month y m =
     (if m = 2 then (if is_leap y then 29 else 28)
      else if m = 4 \<or> m = 6 \<or> m = 9 \<or> m = 11 then 30
      else 31)"

definition days_before_year :: "int \<Rightarrow> int" where
  "days_before_year y =
     (let y1 = y - 1 in y1 * 365 + y1 div 4 - y1 div 100 + y1 div 400)"

text \<open>The table \<^verbatim>\<open>_DAYS_BEFORE_MONTH\<close>, indexed by the month, and one day more after
  February of a leap year.\<close>

definition days_before_month :: "int \<Rightarrow> int \<Rightarrow> int" where
  "days_before_month y m =
     [0, 0, 31, 59, 90, 120, 151, 181, 212, 243, 273, 304, 334] ! nat m
       + (if 2 < m \<and> is_leap y then 1 else 0)"

definition ymd2ord :: "int \<Rightarrow> int \<Rightarrow> int \<Rightarrow> int" where
  "ymd2ord y m d = days_before_year y + days_before_month y m + d"

definition toordinal :: "datetime \<Rightarrow> int" where
  "toordinal t = ymd2ord (year t) (month t) (day t)"

text \<open>The constructor checks its fields and raises \<^verbatim>\<open>ValueError\<close>.\<close>

definition check_date_fields :: "int \<Rightarrow> int \<Rightarrow> int \<Rightarrow> bool" where
  "check_date_fields y m d =
     (1 \<le> y \<and> y \<le> 9999 \<and> 1 \<le> m \<and> m \<le> 12 \<and> 1 \<le> d \<and> d \<le> days_in_month y m)"

definition check_time_fields :: "int \<Rightarrow> int \<Rightarrow> int \<Rightarrow> bool" where
  "check_time_fields h mi s =
     (0 \<le> h \<and> h \<le> 23 \<and> 0 \<le> mi \<and> mi \<le> 59 \<and> 0 \<le> s \<and> s \<le> 59)"

definition mk_datetime :: "int \<Rightarrow> int \<Rightarrow> int \<Rightarrow> int \<Rightarrow> int \<Rightarrow> int \<Rightarrow> error + datetime" where
  "mk_datetime y m d h mi s =
     (if check_date_fields y m d \<and> check_time_fields h mi s
      then Inr \<lparr>year = y, month = m, day = d, hour = h, minute = mi, second = s\<rparr>
      else Inl ValueError)"

text \<open>\<^verbatim>\<open>t.replace(year=y)\<close> builds a new value through the constructor.\<close>

definition replace_year :: "datetime \<Rightarrow> int \<Rightarrow> error + datetime" where
  "replace_year t y = mk_datetime y (month t) (day t) (hour t) (minute t) (second t)"

text \<open>A \<^verbatim>\<open>timedelta\<close> is kept normalised by its constructor: the seconds lie in
  0 to 86399 and the days carry the sign.\<close>

record timedelta =
  days :: int
  seconds :: int

definition mk_timedelta :: "int \<Rightarrow> int \<Rightarrow> timedelta" where
  "mk_timedelta d s = \<lparr>days = d + s div 86400, seconds = s mod 86400\<rparr>"

text \<open>\<^verbatim>\<open>a - b\<close> on two datetimes. The difference of two dates of the years 1 to 9999
  is far inside the range of \<^verbatim>\<open>timedelta\<close>, so no overflow is modelled.\<close>

definition datetime_sub :: "datetime \<Rightarrow> datetime \<Rightarrow> timedelta" where
  "datetime_sub a b =
     mk_timedelta (toordinal a - toordinal b)
       ((second a + minute a * 60 + hour a * 3600)
          - (second b + minute b * 60 + hour b * 3600))"

text \<open>The order of datetimes compares the fields from the year down.\<close>

definition datetime_le :: "datetime \<Rightarrow> datetime \<Rightarrow> bool" where
  "datetime_le a b =
     ((year a, month a, day a, hour a, minute a, second a)
        \<le> (year b, month b, day b, hour b, minute b, second b))"

subsection \<open>\<^verbatim>\<open>datetime.strptime\<close> with the format \<^verbatim>\<open>%Y-%m-%d %H:%M:%S\<close>\<close>

text \<open>
  \<^verbatim>\<open>strptime\<close> turns the format into the regular expression
  \<^verbatim>\<open>(\d\d\d\d)-(1[0-2]|0[1-9]|[1-9])-(3[0-1]|[1-2]\d|0[1-9]|[1-9]| [1-9])\s+\<close>
  \<^verbatim>\<open>(2[0-3]|[0-1]\d|\d):([0-5]\d|\d):(6[0-1]|[0-5]\d|\d)\<close>,
  matches it at the start of the text, and raises \<^verbatim>\<open>ValueError\<close> when there is no match or
  when the first match leaves text over. A matcher is modelled by the list of its
  results in the order in which backtracking tries them: the value read and the text
  that remains.
\<close>

type_synonym 'a rx = "string \<Rightarrow> ('a \<times> string) list"

text \<open>One decimal digit whose value lies between the bounds.\<close>

definition rx_digit :: "int \<Rightarrow> int \<Rightarrow> int rx" where
  "rx_digit lo hi s =
     (case s of
        [] \<Rightarrow> []
      | c # r \<Rightarrow> if isdecimal c \<and> lo \<le> digit_val c \<and> digit_val c \<le> hi
                 then [(digit_val c, r)] else [])"

text \<open>Two digits, each between its bounds.\<close>

definition rx_two :: "int \<Rightarrow> int \<Rightarrow> int \<Rightarrow> int \<Rightarrow> int rx" where
  "rx_two a b c d s =
     [(10 * x + y, r'). (x, r) \<leftarrow> rx_digit a b s, (y, r') \<leftarrow> rx_digit c d r]"

definition rx_lit :: "char \<Rightarrow> string \<Rightarrow> string list" where
  "rx_lit c s = (case s of [] \<Rightarrow> [] | x # r \<Rightarrow> if x = c then [r] else [])"

text \<open>\<^verbatim>\<open>\s+\<close> is greedy: the longest run of whitespace first, then the shorter ones.\<close>

fun rx_spaces :: "string \<Rightarrow> string list" where
  "rx_spaces [] = []"
| "rx_spaces (c # cs) = (if isspace c then rx_spaces cs @ [cs] else [])"

definition rx_Y :: "int rx" where
  "rx_Y s =
     [(1000 * a + 100 * b + 10 * c + d, r4).
        (a, r1) \<leftarrow> rx_digit 0 9 s, (b, r2) \<leftarrow> rx_digit 0 9 r1,
        (c, r3) \<leftarrow> rx_digit 0 9 r2, (d, r4) \<leftarrow> rx_digit 0 9 r3]"

definition rx_m :: "int rx" where
  "rx_m s = rx_two 1 1 0 2 s @ rx_two 0 0 1 9 s @ rx_digit 1 9 s"

definition rx_d :: "int rx" where
  "rx_d s =
     rx_two 3 3 0 1 s @ rx_two 1 2 0 9 s @ rx_two 0 0 1 9 s @ rx_digit 1 9 s
       @ [(v, r'). r \<leftarrow> rx_lit (CHR '' '') s, (v, r') \<leftarrow> rx_digit 1 9 r]"

definition rx_H :: "int rx" where
  "rx_H s = rx_two 2 2 0 3 s @ rx_two 0 1 0 9 s @ rx_digit 0 9 s"

definition rx_M :: "int rx" where
  "rx_M s = rx_two 0 5 0 9 s @ rx_digit 0 9 s"

definition rx_S :: "int rx" where
  "rx_S s = rx_two 6 6 0 1 s @ rx_two 0 5 0 9 s @ rx_digit 0 9 s"

definition rx_time :: "(int \<times> int \<times> int) rx" where
  "rx_time s =
     [((H, M, S), r5).
        (H, r1) \<leftarrow> rx_H s, r2 \<leftarrow> rx_lit (CHR '':'') r1,
        (M, r3) \<leftarrow> rx_M r2, r4 \<leftarrow> rx_lit (CHR '':'') r3,
        (S, r5) \<leftarrow> rx_S r4]"

definition rx_date :: "(int \<times> int \<times> int) rx" where
  "rx_date s =
     [((Y, m, d), r5).
        (Y, r1) \<leftarrow> rx_Y s, r2 \<leftarrow> rx_lit (CHR ''-'') r1,
        (m, r3) \<leftarrow> rx_m r2, r4 \<leftarrow> rx_lit (CHR ''-'') r3,
        (d, r5) \<leftarrow> rx_d r4]"

definition strptime_matches :: "((int \<times> int \<times> int) \<times> (int \<times> int \<times> int)) rx" where
  "strptime_matches s =
     [((ymd, hms), r3).
        (ymd, r1) \<leftarrow> rx_date s, r2 \<leftarrow> rx_spaces r1, (hms, r3) \<leftarrow> rx_time r2]"

text \<open>The first match decides. Text left over is \<^verbatim>\<open>ValueError\<close> (unconverted data
  remains); a year 0, a day the month does not have, or a second of 60 or 61, which the
  expression admits, is \<^verbatim>\<open>ValueError\<close> from the date and datetime constructors.\<close>

definition strptime :: "string \<Rightarrow> error + datetime" where
  "strptime s =
     (case strptime_matches s of
        [] \<Rightarrow> Inl ValueError
      | (((Y, m, d), (H, M, S)), rest) # _ \<Rightarrow>
          if rest \<noteq> [] then Inl ValueError else mk_datetime Y m d H M S)"

subsection \<open>\<^verbatim>\<open>parse_time\<close>\<close>

text \<open>\<^verbatim>\<open>xs[i]\<close> for an index that is not negative.\<close>

definition item :: "'a list \<Rightarrow> nat \<Rightarrow> error + 'a" where
  "item xs i = (if i < length xs then Inr (xs ! i) else Inl IndexError)"

text \<open>The current moment, which the source reads from the clock, is the first
  argument.\<close>

definition parse_time :: "datetime \<Rightarrow> string \<Rightarrow> error + datetime" where
  "parse_time now line =
     (let toks = split_on (CHR '' '') line
      in case item toks 2 of
           Inl e \<Rightarrow> Inl e
         | Inr t2 \<Rightarrow>
            (case item toks 3 of
               Inl e \<Rightarrow> Inl e
             | Inr t3 \<Rightarrow>
                (case strptime (t2 @ '' '' @ t3) of
                   Inl e \<Rightarrow> Inl e
                 | Inr date_object \<Rightarrow>
                     if month date_object = 12 \<and> month now = 1
                     then replace_year date_object (year now - 1)
                     else replace_year date_object (year now))))"

subsection \<open>The job report\<close>

text \<open>The dictionary \<^verbatim>\<open>jobReport\<close> has a fixed set of keys; a key that is absent is
  \<open>None\<close>. The key \<^verbatim>\<open>path\<close> is set before the loop.\<close>

record job_report =
  path :: string
  subTime :: "datetime option"
  execTime :: "datetime option"
  evictTime :: "datetime option"
  termTime :: "datetime option"
  abortedTime :: "datetime option"
  runTime :: "int option"
  usage :: "(string \<rightharpoonup> int) option"

definition new_report :: "string \<Rightarrow> job_report" where
  "new_report p =
     \<lparr>path = p, subTime = None, execTime = None, evictTime = None, termTime = None,
      abortedTime = None, runTime = None, usage = None\<rparr>"

subsection \<open>\<^verbatim>\<open>read_log\<close>\<close>

text \<open>\<^verbatim>\<open>parse_time(chunk.split('\n')[0])\<close>.\<close>

definition chunk_time :: "datetime \<Rightarrow> string \<Rightarrow> error + datetime" where
  "chunk_time now chunk =
     (case first_item (split_on (CHR 0x0A) chunk) of
        Inl e \<Rightarrow> Inl e
      | Inr line \<Rightarrow> parse_time now line)"

text \<open>\<^verbatim>\<open>runTime.days * 86400 + runTime.seconds\<close>.\<close>

definition run_seconds :: "timedelta \<Rightarrow> int" where
  "run_seconds td = days td * 86400 + seconds td"

text \<open>The branch of the codes 004 and 005: the time is stored, then
  \<^verbatim>\<open>jobReport["execTime"]\<close> is read, which raises \<^verbatim>\<open>KeyError\<close> when the key is absent,
  then the run time and the usage are stored. The first argument stores the time under
  \<^verbatim>\<open>evictTime\<close> or \<^verbatim>\<open>termTime\<close>.\<close>

definition finish ::
  "(datetime \<Rightarrow> job_report \<Rightarrow> job_report) \<Rightarrow> datetime \<Rightarrow> job_report \<Rightarrow> string
     \<Rightarrow> error + job_report" where
  "finish store now r chunk =
     (case chunk_time now chunk of
        Inl e \<Rightarrow> Inl e
      | Inr t \<Rightarrow>
         (case execTime r of
            None \<Rightarrow> Inl KeyError
          | Some ex \<Rightarrow>
             (case parse_resources chunk of
                Inl e \<Rightarrow> Inl e
              | Inr u \<Rightarrow>
                  Inr ((store t r)
                         \<lparr>runTime := Some (run_seconds (datetime_sub t ex)),
                          usage := Some u\<rparr>))))"

text \<open>What the loop does with a chunk when it meets a separator line. With
  \<^verbatim>\<open>VERBOSE = False\<close> the last branch prints nothing.\<close>

definition dispatch :: "datetime \<Rightarrow> job_report \<Rightarrow> string \<Rightarrow> error + job_report" where
  "dispatch now r chunk =
     (if startswith ''000'' chunk then
        (case chunk_time now chunk of
           Inl e \<Rightarrow> Inl e | Inr t \<Rightarrow> Inr (r\<lparr>subTime := Some t\<rparr>))
      else if startswith ''001'' chunk then
        (case chunk_time now chunk of
           Inl e \<Rightarrow> Inl e | Inr t \<Rightarrow> Inr (r\<lparr>execTime := Some t\<rparr>))
      else if startswith ''004'' chunk then
        finish (\<lambda>t r. r\<lparr>evictTime := Some t\<rparr>) now r chunk
      else if startswith ''005'' chunk then
        finish (\<lambda>t r. r\<lparr>termTime := Some t\<rparr>) now r chunk
      else if startswith ''006'' chunk then Inr r
      else if startswith ''009'' chunk then
        (case chunk_time now chunk of
           Inl e \<Rightarrow> Inl e | Inr t \<Rightarrow> Inr (r\<lparr>abortedTime := Some t\<rparr>))
      else Inr r)"

text \<open>The loop over the lines of the file. \<^verbatim>\<open>parse_time\<close> reads the clock each time it
  is called, at most once for a line: \<open>clock n\<close> is the moment read while line \<open>n\<close> of
  the file is handled. The state is the chunk collected so far and the report.\<close>

fun read_lines ::
  "(nat \<Rightarrow> datetime) \<Rightarrow> nat \<Rightarrow> string \<Rightarrow> job_report \<Rightarrow> string list \<Rightarrow> error + job_report" where
  "read_lines clock n chunk r [] = Inr r"
| "read_lines clock n chunk r (line # rest) =
     (if startswith ''...'' line
      then (case dispatch (clock n) r chunk of
              Inl e \<Rightarrow> Inl e
            | Inr r' \<Rightarrow> read_lines clock (Suc n) [] r' rest)
      else read_lines clock (Suc n) (chunk @ line) r rest)"

text \<open>
  \<^verbatim>\<open>open(path)\<close> is modelled by its outcome: \<open>fs p\<close> is \<open>Inr lines\<close>, the lines that
  iterating over the opened file yields, each with its line terminator, or \<open>Inl e\<close>
  when \<^verbatim>\<open>open\<close> raises \<open>e\<close>. The \<^verbatim>\<open>try\<close> statement catches \<^verbatim>\<open>IOError\<close> only, prints its
  message and returns \<^verbatim>\<open>None\<close>; every other exception leaves \<^verbatim>\<open>read_log\<close>. The result is
  what was printed and what the call did: \<open>Inl e\<close> when the exception \<open>e\<close> leaves
  \<^verbatim>\<open>read_log\<close>, \<open>Inr None\<close> when it returns \<^verbatim>\<open>None\<close>, \<open>Inr (Some r)\<close> when it returns the
  report.
\<close>

definition read_log ::
  "(string \<Rightarrow> error + string list) \<Rightarrow> (nat \<Rightarrow> datetime) \<Rightarrow> string
     \<Rightarrow> string list \<times> (error + job_report option)" where
  "read_log fs clock p =
     (case (case fs p of
              Inl e \<Rightarrow> Inl e
            | Inr lines \<Rightarrow> read_lines clock 0 [] (new_report p) lines) of
        Inl e \<Rightarrow>
          if e = IOError
          then ([''Couldn'' @ [CHR 0x27] @ ''t find file at '' @ p], Inr None)
          else ([], Inl e)
      | Inr r \<Rightarrow> ([], Inr (Some r)))"

text \<open>
  The built-in \<^verbatim>\<open>open\<close> on a set of readable files. A path with a NUL character is
  refused with \<^verbatim>\<open>ValueError\<close> before the file system is asked; a path at which there is
  no readable file raises \<^verbatim>\<open>IOError\<close>.
\<close>

definition py_open :: "(string \<rightharpoonup> string list) \<Rightarrow> string \<Rightarrow> error + string list" where
  "py_open files p =
     (if CHR 0x00 \<in> set p then Inl ValueError
      else (case files p of None \<Rightarrow> Inl IOError | Some lines \<Rightarrow> Inr lines))"

subsection \<open>The chunks of a log\<close>

text \<open>The chunks that the loop hands to \<open>dispatch\<close>, in file order, each with the
  moment the clock shows at its separator line. Lines after the last separator belong
  to no chunk.\<close>

fun chunks_of :: "(nat \<Rightarrow> datetime) \<Rightarrow> nat \<Rightarrow> string \<Rightarrow> string list \<Rightarrow> (datetime \<times> string) list" where
  "chunks_of clock n chunk [] = []"
| "chunks_of clock n chunk (line # rest) =
     (if startswith ''...'' line
      then (clock n, chunk) # chunks_of clock (Suc n) [] rest
      else chunks_of clock (Suc n) (chunk @ line) rest)"

fun run_chunks :: "job_report \<Rightarrow> (datetime \<times> string) list \<Rightarrow> error + job_report" where
  "run_chunks r [] = Inr r"
| "run_chunks r ((now, chunk) # cs) =
     (case dispatch now r chunk of
        Inl e \<Rightarrow> Inl e
      | Inr r' \<Rightarrow> run_chunks r' cs)"

subsection \<open>Notions used to state the properties\<close>

text \<open>The first token of a line, in the sense of \<^verbatim>\<open>split()\<close>, that consists of digits
  only, as a number.\<close>

definition first_number :: "string \<Rightarrow> int option" where
  "first_number line =
     (case find isdigit (split_ws line) of
        None \<Rightarrow> None
      | Some tok \<Rightarrow> (case int_of_digits tok of Inl e \<Rightarrow> None | Inr n \<Rightarrow> Some n))"


text \<open>The last element of a list that has a property.\<close>

fun last_with :: "('a \<Rightarrow> bool) \<Rightarrow> 'a list \<Rightarrow> 'a option" where
  "last_with P [] = None"
| "last_with P (x # xs) =
     (case last_with P xs of
        None \<Rightarrow> (if P x then Some x else None)
      | Some y \<Rightarrow> Some y)"



text \<open>The event kinds, their codes, and what the loop does for each kind: the branches
  of \<open>dispatch\<close>, selected by the first three characters of the chunk.\<close>

datatype event = Submitted | Executing | Evicted | Terminated | ImageSize | Aborted

definition event_codes :: "(string \<times> event) list" where
  "event_codes =
     [(''000'', Submitted), (''001'', Executing), (''004'', Evicted),
      (''005'', Terminated), (''006'', ImageSize), (''009'', Aborted)]"

definition event_of :: "string \<Rightarrow> event option" where
  "event_of chunk = map_of event_codes (take 3 chunk)"

fun handle :: "event \<Rightarrow> datetime \<Rightarrow> job_report \<Rightarrow> string \<Rightarrow> error + job_report" where
  "handle Submitted now r chunk =
     (case chunk_time now chunk of Inl e \<Rightarrow> Inl e | Inr t \<Rightarrow> Inr (r\<lparr>subTime := Some t\<rparr>))"
| "handle Executing now r chunk =
     (case chunk_time now chunk of Inl e \<Rightarrow> Inl e | Inr t \<Rightarrow> Inr (r\<lparr>execTime := Some t\<rparr>))"
| "handle Evicted now r chunk = finish (\<lambda>t r. r\<lparr>evictTime := Some t\<rparr>) now r chunk"
| "handle Terminated now r chunk = finish (\<lambda>t r. r\<lparr>termTime := Some t\<rparr>) now r chunk"
| "handle ImageSize now r chunk = Inr r"
| "handle Aborted now r chunk =
     (case chunk_time now chunk of Inl e \<Rightarrow> Inl e | Inr t \<Rightarrow> Inr (r\<lparr>abortedTime := Some t\<rparr>))"

text \<open>Sample inputs: a moment in June 2024, and first lines of chunks.\<close>

definition june :: datetime where
  "june = \<lparr>year = 2024, month = 6, day = 1, hour = 12, minute = 0, second = 0\<rparr>"

definition may_first :: datetime where
  "may_first = \<lparr>year = 2024, month = 5, day = 1, hour = 10, minute = 0, second = 0\<rparr>"

definition aborted_chunk :: string where
  "aborted_chunk = ''009 (1.0.0) 2024-05-01 10:00:00 Job was aborted.'' @ [CHR 0x0A]"

definition evicted_chunk :: string where
  "evicted_chunk = ''004 (1.0.0) 2024-05-01 10:00:00 Job was evicted.'' @ [CHR 0x0A]"

definition other_chunk :: string where
  "other_chunk = ''012 (1.0.0) 2024-05-01 10:00:00 Job was held.'' @ [CHR 0x0A]"

definition longer_code_chunk :: string where
  "longer_code_chunk = ''0001 (1.0.0) 2024-05-01 10:00:00 Job submitted'' @ [CHR 0x0A]"

text \<open>The line that the docstring of \<^verbatim>\<open>parse_time\<close> gives as the expected input, the same
  line with the date written with its year, and the two moments of the specification's
  example.\<close>

definition docstring_line :: string where
  "docstring_line =
     ''001 (132663.000.000) 12/29 15:16:50 Job executing on host: <128.105.244.247:35219>''"

definition iso_line :: string where
  "iso_line =
     ''001 (132663.000.000) 2019-12-29 15:16:50 Job executing on host: <128.105.244.247:35219>''"

definition january_2024 :: datetime where
  "january_2024 = \<lparr>year = 2024, month = 1, day = 5, hour = 9, minute = 30, second = 0\<rparr>"

definition december_2023 :: datetime where
  "december_2023 = \<lparr>year = 2023, month = 12, day = 30, hour = 9, minute = 30, second = 0\<rparr>"

text \<open>The field of the report in which an event stores its time. The image size
  update stores nothing.\<close>

fun time_field :: "event \<Rightarrow> (job_report \<Rightarrow> datetime option) option" where
  "time_field Submitted = Some subTime"
| "time_field Executing = Some execTime"
| "time_field Evicted = Some evictTime"
| "time_field Terminated = Some termTime"
| "time_field ImageSize = None"
| "time_field Aborted = Some abortedTime"

text \<open>The seconds from the start of the day before 0001-01-01 to a datetime, the fields
  that the constructor accepts, and the order of datetimes spelled out.\<close>

definition epoch_seconds :: "datetime \<Rightarrow> int" where
  "epoch_seconds t = toordinal t * 86400 + hour t * 3600 + minute t * 60 + second t"

definition valid_datetime :: "datetime \<Rightarrow> bool" where
  "valid_datetime t =
     (check_date_fields (year t) (month t) (day t)
      \<and> check_time_fields (hour t) (minute t) (second t))"

text \<open>Two sample logs. In the first a job runs, is evicted, runs again and terminates, all
  on 2024-05-01, and the log is read in June 2024. In the second a job starts ten seconds
  before the first of December 2023 and terminates ten seconds after it, and the log is
  read on 2024-01-05.\<close>

definition sep_line :: string where
  "sep_line = ''...'' @ [CHR 0x0A]"

definition first_exec_chunk :: string where
  "first_exec_chunk = ''001 (1.0.0) 2024-05-01 10:00:00 Job executing on host: <h1>'' @ [CHR 0x0A]"

definition evict_lines :: "string list" where
  "evict_lines =
     [''004 (1.0.0) 2024-05-01 10:00:20 Job was evicted.'' @ [CHR 0x0A],
      ''    Disk (KB) : 100 200'' @ [CHR 0x0A],
      ''    Memory (MB) : 5 10'' @ [CHR 0x0A]]"

definition second_exec_chunk :: string where
  "second_exec_chunk = ''001 (1.0.0) 2024-05-01 10:01:00 Job executing on host: <h2>'' @ [CHR 0x0A]"

definition term_lines :: "string list" where
  "term_lines =
     [''005 (1.0.0) 2024-05-01 10:01:30 Job terminated.'' @ [CHR 0x0A],
      ''    Disk (KB) : 1024 2048'' @ [CHR 0x0A],
      ''    Memory (MB) : 512 1024'' @ [CHR 0x0A]]"

definition two_runs_log :: "string list" where
  "two_runs_log =
     [first_exec_chunk, sep_line] @ evict_lines @ [sep_line]
       @ [second_exec_chunk, sep_line] @ term_lines @ [sep_line]"

definition two_runs_fs :: "string \<Rightarrow> error + string list" where
  "two_runs_fs = py_open [''job1/process.log'' \<mapsto> two_runs_log]"

definition june_clock :: "nat \<Rightarrow> datetime" where
  "june_clock n = june"

definition two_runs_report :: job_report where
  "two_runs_report =
     \<lparr>path = ''job1/process.log'',
      subTime = None,
      execTime = Some \<lparr>year = 2024, month = 5, day = 1, hour = 10, minute = 1, second = 0\<rparr>,
      evictTime = Some \<lparr>year = 2024, month = 5, day = 1, hour = 10, minute = 0, second = 20\<rparr>,
      termTime = Some \<lparr>year = 2024, month = 5, day = 1, hour = 10, minute = 1, second = 30\<rparr>,
      abortedTime = None,
      runTime = Some 30,
      usage = Some [''diskUsage'' \<mapsto> 1024, ''memUsage'' \<mapsto> 512]\<rparr>"

definition year_end_exec_chunk :: string where
  "year_end_exec_chunk = ''001 (1.0.0) 2023-11-30 23:59:50 Job executing on host: <h1>'' @ [CHR 0x0A]"

definition year_end_term_lines :: "string list" where
  "year_end_term_lines =
     [''005 (1.0.0) 2023-12-01 00:00:10 Job terminated.'' @ [CHR 0x0A],
      ''    Disk (KB) : 1024 2048'' @ [CHR 0x0A],
      ''    Memory (MB) : 512 1024'' @ [CHR 0x0A]]"

definition year_end_log :: "string list" where
  "year_end_log = [year_end_exec_chunk, sep_line] @ year_end_term_lines @ [sep_line]"

definition year_end_fs :: "string \<Rightarrow> error + string list" where
  "year_end_fs = py_open [''job2/process.log'' \<mapsto> year_end_log]"

text \<open>A directory without files, and a path with a NUL character.\<close>

definition no_files :: "string \<rightharpoonup> string list" where
  "no_files p = None"

definition nul_path :: string where
  "nul_path = [CHR ''a'', CHR 0x00, CHR ''b'']"

definition january_clock :: "nat \<Rightarrow> datetime" where
  "january_clock n = january_2024"

section \<open>Properties\<close>

subsection \<open>The loop dispatches the chunks in file order\<close>

lemma read_lines_run_chunks:
  "read_lines clock n chunk r ls = run_chunks r (chunks_of clock n chunk ls)"
  by (induction ls arbitrary: n chunk r) (auto split: sum.splits)

subsection \<open>String primitives\<close>

lemma startswith_take: "startswith p s \<longleftrightarrow> take (length p) s = p"
  by (induction p s rule: startswith.induct) auto

lemma split_on_not_Nil: "split_on sep s \<noteq> []"
  by (induction s) (auto split: list.splits)

subsection \<open>The resource table\<close>

lemma ints_of_Nil: "ints_of ts = Inr [] \<longleftrightarrow> find isdigit ts = None"
  by (induction ts) (auto split: sum.splits)

lemma ints_of_Cons:
  "ints_of ts = Inr (n # ns) \<Longrightarrow> \<exists>tok. find isdigit ts = Some tok \<and> int_of_digits tok = Inr n"
  by (induction ts) (auto split: sum.splits if_splits)

lemma numbers_first_number:
  "numbers line = Inr ns \<Longrightarrow> first_item ns = Inr n \<Longrightarrow> first_number line = Some n"
  unfolding numbers_def first_number_def first_item_def
  by (cases ns) (auto dest!: ints_of_Cons)

lemma take_usage_Inr:
  assumes "take_usage word key line u = Inr u'"
  shows "if contains word line
         then (\<exists>n. first_number line = Some n \<and> u' = u(key \<mapsto> n))
         else u' = u"
  using assms unfolding take_usage_def
  by (auto split: if_splits sum.splits dest: numbers_first_number)


lemma resources_line_Inr:
  assumes "resources_line line u = Inr u'"
  shows "u' ''diskUsage'' = (if contains ''Disk'' line then first_number line else u ''diskUsage'')"
    and "u' ''memUsage'' = (if contains ''Memory'' line then first_number line else u ''memUsage'')"
    and "contains ''Disk'' line \<or> contains ''Memory'' line \<Longrightarrow> first_number line \<noteq> None"
    and "dom u' \<subseteq> dom u \<union> {''diskUsage'', ''memUsage''}"
proof -
  from assms obtain u1 where
    d: "take_usage ''Disk'' ''diskUsage'' line u = Inr u1" and
    m: "take_usage ''Memory'' ''memUsage'' line u1 = Inr u'"
    by (auto simp: resources_line_def split: sum.splits)
  note D = take_usage_Inr [OF d] and M = take_usage_Inr [OF m]
  show "u' ''diskUsage'' = (if contains ''Disk'' line then first_number line else u ''diskUsage'')"
    using D M by (auto split: if_splits)
  show "u' ''memUsage'' = (if contains ''Memory'' line then first_number line else u ''memUsage'')"
    using D M by (auto split: if_splits)
  show "contains ''Disk'' line \<or> contains ''Memory'' line \<Longrightarrow> first_number line \<noteq> None"
    using D M by (auto split: if_splits)
  show "dom u' \<subseteq> dom u \<union> {''diskUsage'', ''memUsage''}"
    using D M by (auto split: if_splits)
qed

lemma resources_loop_Inr:
  "resources_loop ls u = Inr u' \<Longrightarrow>
     u' ''diskUsage''
       = (case last_with (contains ''Disk'') ls of
            None \<Rightarrow> u ''diskUsage'' | Some l \<Rightarrow> first_number l)
   \<and> u' ''memUsage''
       = (case last_with (contains ''Memory'') ls of
            None \<Rightarrow> u ''memUsage'' | Some l \<Rightarrow> first_number l)
   \<and> (\<forall>l \<in> set ls. contains ''Disk'' l \<or> contains ''Memory'' l \<longrightarrow> first_number l \<noteq> None)
   \<and> dom u' \<subseteq> dom u \<union> {''diskUsage'', ''memUsage''}"
proof (induction ls arbitrary: u)
  case Nil
  then show ?case by auto
next
  case (Cons l ls)
  from Cons.prems obtain u1 where
    l: "resources_line l u = Inr u1" and r: "resources_loop ls u1 = Inr u'"
    by (auto split: sum.splits)
  note L = resources_line_Inr [OF l] and R = Cons.IH [OF r]
  have "dom u' \<subseteq> dom u \<union> {''diskUsage'', ''memUsage''}"
    using L(4) R by blast
  moreover have "u' ''diskUsage''
       = (case last_with (contains ''Disk'') (l # ls) of
            None \<Rightarrow> u ''diskUsage'' | Some l \<Rightarrow> first_number l)"
    using L(1) R by (simp split: option.splits)
  moreover have "u' ''memUsage''
       = (case last_with (contains ''Memory'') (l # ls) of
            None \<Rightarrow> u ''memUsage'' | Some l \<Rightarrow> first_number l)"
    using L(2) R by (simp split: option.splits)
  moreover have "\<forall>x \<in> set (l # ls).
      contains ''Disk'' x \<or> contains ''Memory'' x \<longrightarrow> first_number x \<noteq> None"
    using L(3) R by simp
  ultimately show ?case by blast
qed















lemma ints_of_decimal:
  "\<forall>tok \<in> set ts. isdigit tok \<longrightarrow> list_all isdecimal tok \<Longrightarrow> \<exists>ns. ints_of ts = Inr ns"
  by (induction ts) (auto simp: int_of_digits_def isdigit_def)

lemma take_usage_error:
  assumes "\<forall>tok \<in> set (split_ws line). isdigit tok \<longrightarrow> list_all isdecimal tok"
    and "take_usage word key line u = Inl e"
  shows "e = IndexError"
proof -
  from ints_of_decimal [OF assms(1)] obtain ns where "numbers line = Inr ns"
    by (auto simp: numbers_def)
  with assms(2) show ?thesis
    by (auto simp: take_usage_def first_item_def split: if_splits list.splits)
qed

lemma resources_line_error:
  assumes "\<forall>tok \<in> set (split_ws line). isdigit tok \<longrightarrow> list_all isdecimal tok"
    and "resources_line line u = Inl e"
  shows "e = IndexError"
  using assms(2) take_usage_error [OF assms(1)]
  by (auto simp: resources_line_def split: sum.splits)

lemma resources_loop_error:
  "\<forall>l \<in> set ls. \<forall>tok \<in> set (split_ws l). isdigit tok \<longrightarrow> list_all isdecimal tok \<Longrightarrow>
   resources_loop ls u = Inl e \<Longrightarrow> e = IndexError"
proof (induction ls arbitrary: u)
  case Nil
  then show ?case by simp
next
  case (Cons l ls)
  show ?case
  proof (cases "resources_line l u")
    case (Inl e')
    with Cons.prems show ?thesis
      using resources_line_error [of l u e'] by simp
  next
    case (Inr u')
    with Cons.prems Cons.IH [of u'] show ?thesis by simp
  qed
qed

text \<open>
  \<^bold>\<open>C10.\<close> When a line of the chunk contains \<^verbatim>\<open>Disk\<close> or \<^verbatim>\<open>Memory\<close> and none of its tokens
  consists of digits only, the loop body raises \<^verbatim>\<open>IndexError\<close> at that line, and
  \<^verbatim>\<open>parse_resources\<close> returns no mapping for the chunk. The exception that leaves
  \<^verbatim>\<open>parse_resources\<close> is \<^verbatim>\<open>IndexError\<close> whenever \<^verbatim>\<open>int\<close> accepts every all-digit token of
  the chunk (otherwise an earlier line may already have raised \<^verbatim>\<open>ValueError\<close>).
\<close>

theorem parse_resources_no_number:
  assumes "l \<in> set (split_on (CHR 0x0A) chunk)"
    and "contains ''Disk'' l \<or> contains ''Memory'' l"
    and "find isdigit (split_ws l) = None"
  shows "(\<forall>u. resources_line l u = Inl IndexError)
       \<and> (\<exists>e. parse_resources chunk = Inl e)
       \<and> ((\<forall>x \<in> set (split_on (CHR 0x0A) chunk).
              \<forall>tok \<in> set (split_ws x). isdigit tok \<longrightarrow> list_all isdecimal tok)
            \<longrightarrow> parse_resources chunk = Inl IndexError)"
proof (intro conjI impI)
  have n: "numbers l = Inr []"
    using assms(3) by (simp add: numbers_def ints_of_Nil)
  show "\<forall>u. resources_line l u = Inl IndexError"
    using assms(2) n
    by (auto simp: resources_line_def take_usage_def first_item_def)
  have "first_number l = None"
    using assms(3) by (simp add: first_number_def)
  with assms(1,2) have "\<And>u. parse_resources chunk \<noteq> Inr u"
    unfolding parse_resources_def using resources_loop_Inr by blast
  then show e: "\<exists>e. parse_resources chunk = Inl e"
    by (cases "parse_resources chunk") auto
  assume "\<forall>x \<in> set (split_on (CHR 0x0A) chunk).
              \<forall>tok \<in> set (split_ws x). isdigit tok \<longrightarrow> list_all isdecimal tok"
  with e show "parse_resources chunk = Inl IndexError"
    unfolding parse_resources_def using resources_loop_error by blast
qed

theorem parse_resources_no_number_witness:
  "''Disk (KB) : n/a''
     \<in> set (split_on (CHR 0x0A) (''Cpus : 1'' @ [CHR 0x0A] @ ''Disk (KB) : n/a''))
   \<and> contains ''Disk'' ''Disk (KB) : n/a''
   \<and> find isdigit (split_ws ''Disk (KB) : n/a'') = None
   \<and> resources_line ''Disk (KB) : n/a'' Map.empty = Inl IndexError
   \<and> parse_resources (''Cpus : 1'' @ [CHR 0x0A] @ ''Disk (KB) : n/a'') = Inl IndexError"
proof -
  have 1: "''Disk (KB) : n/a''
     \<in> set (split_on (CHR 0x0A) (''Cpus : 1'' @ [CHR 0x0A] @ ''Disk (KB) : n/a''))"
    by simp
  have 2: "contains ''Disk'' ''Disk (KB) : n/a''" by simp
  have 3: "find isdigit (split_ws ''Disk (KB) : n/a'') = None"
    by (simp add: split_ws_def isspace_def isdigit_def isdigit_char_def isdecimal_def)
  have 4: "\<forall>x \<in> set (split_on (CHR 0x0A) (''Cpus : 1'' @ [CHR 0x0A] @ ''Disk (KB) : n/a'')).
              \<forall>tok \<in> set (split_ws x). isdigit tok \<longrightarrow> list_all isdecimal tok"
    by (simp add: split_ws_def isspace_def isdigit_def isdigit_char_def isdecimal_def)
  show ?thesis
    using 1 2 3 4 parse_resources_no_number [OF 1 disjI1 [OF 2] 3] by blast
qed

subsection \<open>Dispatching a chunk\<close>

lemma startswith3: "startswith [a, b, c] s \<longleftrightarrow> take 3 s = [a, b, c]"
  by (simp add: startswith_take numeral_3_eq_3)

lemma dispatch_event:
  "dispatch now r chunk = (case event_of chunk of None \<Rightarrow> Inr r | Some ev \<Rightarrow> handle ev now r chunk)"
  by (simp add: dispatch_def startswith3 event_of_def event_codes_def)

lemma run_chunks_append:
  "run_chunks r (cs @ cs') =
     (case run_chunks r cs of Inl e \<Rightarrow> Inl e | Inr r' \<Rightarrow> run_chunks r' cs')"
  by (induction cs arbitrary: r) (auto split: sum.splits)

lemma finish_no_execTime:
  "execTime r = None \<Longrightarrow>
   finish store now r chunk = Inl (case chunk_time now chunk of Inl e \<Rightarrow> e | Inr t \<Rightarrow> KeyError)"
  by (simp add: finish_def split: sum.splits)

text \<open>Resolving a time raises \<^verbatim>\<open>IndexError\<close> or \<^verbatim>\<open>ValueError\<close>, nothing else.\<close>

lemma mk_datetime_error: "mk_datetime y m d h mi s = Inl e \<Longrightarrow> e = ValueError"
  by (simp add: mk_datetime_def split: if_splits)

lemma strptime_error: "strptime s = Inl e \<Longrightarrow> e = ValueError"
  unfolding strptime_def
  by (auto split: list.splits prod.splits if_splits dest: mk_datetime_error)

lemma item_error: "item xs i = Inl e \<Longrightarrow> e = IndexError"
  by (simp add: item_def split: if_splits)

lemma parse_time_error: "parse_time now line = Inl e \<Longrightarrow> e = IndexError \<or> e = ValueError"
  unfolding parse_time_def Let_def replace_year_def
  by (auto split: sum.splits if_splits dest: mk_datetime_error strptime_error item_error)

lemma chunk_time_error: "chunk_time now chunk = Inl e \<Longrightarrow> e = IndexError \<or> e = ValueError"
  unfolding chunk_time_def first_item_def
  using split_on_not_Nil [of "CHR 0x0A" chunk]
  by (auto split: list.splits dest: parse_time_error)

lemma chunk_time_aborted_chunk: "chunk_time june aborted_chunk = Inr may_first"
  by code_simp

lemma chunk_time_evicted_chunk: "chunk_time june evicted_chunk = Inr may_first"
  by code_simp

lemma chunk_time_longer_code_chunk: "chunk_time june longer_code_chunk = Inr may_first"
  by code_simp

text \<open>
  \<^bold>\<open>C4.\<close> When a chunk that starts with 004 or 005 is dispatched and the report has no
  \<^verbatim>\<open>execTime\<close>, the dispatch raises: \<^verbatim>\<open>KeyError\<close> from \<^verbatim>\<open>jobReport["execTime"]\<close> when the
  time of the chunk parses, the error of \<^verbatim>\<open>parse_time\<close> otherwise. The exception leaves
  \<^verbatim>\<open>read_log\<close>: the call returns neither a report nor \<^verbatim>\<open>None\<close>, whatever chunks follow.
\<close>

theorem missing_execTime_fails:
  assumes "startswith ''004'' chunk \<or> startswith ''005'' chunk"
    and "execTime r = None"
  shows "dispatch now r chunk
           = Inl (case chunk_time now chunk of Inl e \<Rightarrow> e | Inr t \<Rightarrow> KeyError)
       \<and> (fs p = Inr ls \<and> chunks_of clock 0 [] ls = cs @ (now, chunk) # cs'
            \<and> run_chunks (new_report p) cs = Inr r
          \<longrightarrow> read_log fs clock p
                = ([], Inl (case chunk_time now chunk of Inl e \<Rightarrow> e | Inr t \<Rightarrow> KeyError)))"
proof (intro conjI impI)
  show d: "dispatch now r chunk
           = Inl (case chunk_time now chunk of Inl e \<Rightarrow> e | Inr t \<Rightarrow> KeyError)"
    using assms by (auto simp: dispatch_def startswith3 finish_no_execTime)
  have n: "(case chunk_time now chunk of Inl e \<Rightarrow> e | Inr t \<Rightarrow> KeyError) \<noteq> IOError"
    using chunk_time_error [of now chunk] by (auto split: sum.splits)
  assume "fs p = Inr ls \<and> chunks_of clock 0 [] ls = cs @ (now, chunk) # cs'
            \<and> run_chunks (new_report p) cs = Inr r"
  then show "read_log fs clock p
           = ([], Inl (case chunk_time now chunk of Inl e \<Rightarrow> e | Inr t \<Rightarrow> KeyError))"
    using n by (simp add: read_log_def read_lines_run_chunks run_chunks_append d)
qed

theorem missing_execTime_fails_witness:
  "startswith ''004'' evicted_chunk
   \<and> execTime (new_report ''job1/process.log'') = None
   \<and> chunks_of (\<lambda>n. june) 0 [] [evicted_chunk, ''...'' @ [CHR 0x0A]] = [] @ (june, evicted_chunk) # []
   \<and> run_chunks (new_report ''job1/process.log'') [] = Inr (new_report ''job1/process.log'')
   \<and> dispatch june (new_report ''job1/process.log'') evicted_chunk = Inl KeyError
   \<and> read_log (\<lambda>p. Inr [evicted_chunk, ''...'' @ [CHR 0x0A]]) (\<lambda>n. june) ''job1/process.log''
       = ([], Inl KeyError)"
proof -
  have 1: "startswith ''004'' evicted_chunk"
    by (simp add: evicted_chunk_def)
  have 2: "execTime (new_report ''job1/process.log'') = None"
    by (simp add: new_report_def)
  have 3: "chunks_of (\<lambda>n. june) 0 [] [evicted_chunk, ''...'' @ [CHR 0x0A]]
             = [] @ (june, evicted_chunk) # []"
    by (simp add: evicted_chunk_def)
  have 4: "run_chunks (new_report ''job1/process.log'') [] = Inr (new_report ''job1/process.log'')"
    by simp
  show ?thesis
    using 1 2 3 4 chunk_time_evicted_chunk
      missing_execTime_fails [OF disjI1 [OF 1] 2, of june
        "\<lambda>p. Inr [evicted_chunk, ''...'' @ [CHR 0x0A]]" "''job1/process.log''"
        "[evicted_chunk, ''...'' @ [CHR 0x0A]]" "\<lambda>n. june" "[]" "[]"]
    by simp
qed

text \<open>
  \<^bold>\<open>C6.\<close> Dispatching a chunk that starts with 009 and whose first line carries a time
  that parses stores that time under \<^verbatim>\<open>abortedTime\<close> and changes nothing else: the report
  that results has the \<^verbatim>\<open>runTime\<close> and every other field of the report before, whether
  or not \<^verbatim>\<open>execTime\<close> is present.
\<close>

theorem dispatch_aborted:
  assumes "startswith ''009'' chunk" and "chunk_time now chunk = Inr t"
  shows "dispatch now r chunk = Inr (r\<lparr>abortedTime := Some t\<rparr>)
       \<and> (\<forall>r'. dispatch now r chunk = Inr r' \<longrightarrow>
             abortedTime r' = Some t \<and> runTime r' = runTime r \<and> usage r' = usage r
           \<and> subTime r' = subTime r \<and> execTime r' = execTime r \<and> evictTime r' = evictTime r
           \<and> termTime r' = termTime r \<and> path r' = path r)"
  using assms by (auto simp: dispatch_def startswith3)

theorem dispatch_aborted_witness:
  "startswith ''009'' aborted_chunk
   \<and> chunk_time june aborted_chunk = Inr may_first
   \<and> dispatch june ((new_report ''p'')\<lparr>execTime := Some may_first, runTime := Some 20\<rparr>) aborted_chunk
       = Inr ((new_report ''p'')
                \<lparr>execTime := Some may_first, runTime := Some 20, abortedTime := Some may_first\<rparr>)"
proof -
  have 1: "startswith ''009'' aborted_chunk"
    by (simp add: aborted_chunk_def)
  show ?thesis
    using 1 chunk_time_aborted_chunk
      dispatch_aborted [OF 1 chunk_time_aborted_chunk,
        of "(new_report ''p'')\<lparr>execTime := Some may_first, runTime := Some 20\<rparr>"]
    by (simp add: new_report_def)
qed

text \<open>
  \<^bold>\<open>C7\<close>, as the code has it. The branch is chosen by the first three characters of the
  chunk: \<open>dispatch\<close> handles the chunk as the event whose code these characters are, and
  a chunk whose first three characters are none of 000, 001, 004, 005, 006, 009 is
  discarded and leaves the report as it was.
\<close>

theorem dispatch_by_prefix:
  "dispatch now r chunk
     = (case event_of chunk of None \<Rightarrow> Inr r | Some ev \<Rightarrow> handle ev now r chunk)
   \<and> (take 3 chunk \<notin> {''000'', ''001'', ''004'', ''005'', ''006'', ''009''}
        \<longrightarrow> dispatch now r chunk = Inr r)"
  by (simp add: dispatch_event event_of_def event_codes_def)

theorem dispatch_by_prefix_witness:
  "take 3 other_chunk \<notin> {''000'', ''001'', ''004'', ''005'', ''006'', ''009''}
   \<and> dispatch june (new_report ''p'') other_chunk = Inr (new_report ''p'')"
proof -
  have h: "take 3 other_chunk \<notin> {''000'', ''001'', ''004'', ''005'', ''006'', ''009''}"
    by (simp add: other_chunk_def)
  show ?thesis
    using h dispatch_by_prefix [of june "new_report ''p''" other_chunk]
    by blast
qed

text \<open>
  \<^bold>\<open>C7\<close>, as the claim states it, fails. The first token of the chunk below is \<^verbatim>\<open>0001\<close>,
  which is none of the six codes, yet the chunk is not discarded: it starts with
  \<^verbatim>\<open>000\<close>, and its time is stored under \<^verbatim>\<open>subTime\<close>.
\<close>

theorem longer_code_counterexample:
  "first_item (split_ws longer_code_chunk) = Inr ''0001''
   \<and> dispatch june (new_report ''p'') longer_code_chunk
       = Inr ((new_report ''p'')\<lparr>subTime := Some may_first\<rparr>)"
proof -
  have "first_item (split_ws longer_code_chunk) = Inr ''0001''"
    by code_simp
  then show ?thesis
    using chunk_time_longer_code_chunk
    by (simp add: dispatch_def longer_code_chunk_def)
qed

text \<open>
  \<^bold>\<open>C9\<close>, as the code has it. When \<^verbatim>\<open>open\<close> raises \<^verbatim>\<open>IOError\<close>, \<^verbatim>\<open>read_log\<close> prints its
  message and returns \<^verbatim>\<open>None\<close>, and no exception leaves the call. When \<^verbatim>\<open>open\<close> raises
  another exception, that exception leaves \<^verbatim>\<open>read_log\<close> and nothing is printed.
\<close>

theorem read_log_unopenable:
  "(fs p = Inl IOError \<longrightarrow>
      read_log fs clock p = ([''Couldn'' @ [CHR 0x27] @ ''t find file at '' @ p], Inr None))
   \<and> (fs p = Inl e \<and> e \<noteq> IOError \<longrightarrow> read_log fs clock p = ([], Inl e))"
  by (simp add: read_log_def)

theorem read_log_unopenable_witness:
  "py_open no_files ''job9/process.log'' = Inl IOError
   \<and> read_log (py_open no_files) june_clock ''job9/process.log''
       = ([''Couldn'' @ [CHR 0x27] @ ''t find file at job9/process.log''], Inr None)
   \<and> py_open no_files nul_path = Inl ValueError
   \<and> ValueError \<noteq> IOError
   \<and> read_log (py_open no_files) june_clock nul_path = ([], Inl ValueError)"
proof -
  have 1: "py_open no_files ''job9/process.log'' = Inl IOError"
    by (simp add: py_open_def no_files_def)
  have 2: "py_open no_files nul_path = Inl ValueError \<and> ValueError \<noteq> IOError"
    by (simp add: py_open_def nul_path_def)
  show ?thesis
    using 1 2
      read_log_unopenable [where fs = "py_open no_files" and p = "''job9/process.log''"
        and clock = june_clock]
      read_log_unopenable [where fs = "py_open no_files" and p = nul_path and e = ValueError
        and clock = june_clock]
    by simp
qed

text \<open>
  \<^bold>\<open>C9\<close>, as the claim states it, fails. The path below has a NUL character: it cannot be
  opened, \<^verbatim>\<open>open\<close> raises \<^verbatim>\<open>ValueError\<close>, which \<^verbatim>\<open>except IOError\<close> does not catch, and the
  exception leaves \<^verbatim>\<open>read_log\<close> where the claim says that \<^verbatim>\<open>None\<close> is returned.
\<close>

theorem nul_path_counterexample:
  "py_open no_files nul_path = Inl ValueError
   \<and> read_log (py_open no_files) june_clock nul_path = ([], Inl ValueError)
   \<and> snd (read_log (py_open no_files) june_clock nul_path) \<noteq> Inr None"
  by (simp add: read_log_def py_open_def nul_path_def)

subsection \<open>Resolving a time\<close>

text \<open>A date token written as month, slash, day never matches: the expression asks for a
  year of four digits, and the third character is the slash.\<close>

lemma rx_Y_slash: "rx_Y (a # b # CHR ''/'' # s) = []"
  by (simp add: rx_Y_def rx_digit_def isdecimal_def)

lemma strptime_month_day: "strptime (a # b # CHR ''/'' # s) = Inl ValueError"
  by (simp add: strptime_def strptime_matches_def rx_date_def rx_Y_slash)

lemma split_on_no_sep: "sep \<notin> set w \<Longrightarrow> split_on sep (w @ sep # s) = w # split_on sep s"
  by (induction w) auto

lemma parse_time_month_day:
  assumes "CHR '' '' \<notin> set code" and "CHR '' '' \<notin> set job"
    and "CHR '' '' \<notin> {m1, m2, d1, d2}"
  shows "parse_time now (code @ '' '' @ job @ '' '' @ [m1, m2, CHR ''/'', d1, d2] @ '' '' @ rest)
           = Inl ValueError"
proof -
  obtain t ts where r: "split_on (CHR '' '') rest = t # ts"
    using split_on_not_Nil [of "CHR '' ''" rest] by (cases "split_on (CHR '' '') rest") auto
  have "split_on (CHR '' '') ([m1, m2, CHR ''/'', d1, d2] @ CHR '' '' # rest)
          = [m1, m2, CHR ''/'', d1, d2] # t # ts"
    using assms(3) r by (subst split_on_no_sep) auto
  then have "split_on (CHR '' '')
          (code @ '' '' @ job @ '' '' @ [m1, m2, CHR ''/'', d1, d2] @ '' '' @ rest)
        = code # job # [m1, m2, CHR ''/'', d1, d2] # t # ts"
    using assms(1,2) by (simp add: split_on_no_sep)
  then show ?thesis
    by (simp add: parse_time_def item_def strptime_month_day)
qed

text \<open>
  \<^bold>\<open>C1.\<close> On the line of the docstring, whose third and fourth tokens are \<^verbatim>\<open>12/29\<close> and
  \<^verbatim>\<open>15:16:50\<close>, \<^verbatim>\<open>parse_time\<close> raises \<^verbatim>\<open>ValueError\<close> on 2024-01-05 and on 2023-12-30: no time
  is resolved, so none has the year 2023. The format \<^verbatim>\<open>%Y-%m-%d %H:%M:%S\<close> asks for a date
  with its year; on such a line the rule of the claim gives 2023 at both moments.
\<close>

theorem parse_time_docstring_line:
  "parse_time january_2024 docstring_line = Inl ValueError
   \<and> parse_time december_2023 docstring_line = Inl ValueError
   \<and> map_sum id year (parse_time january_2024 iso_line) = Inr 2023
   \<and> map_sum id year (parse_time december_2023 iso_line) = Inr 2023"
  by code_simp

text \<open>
  \<^bold>\<open>C2.\<close> The fragment \<^verbatim>\<open>12/29 15:16:50\<close> has the shape of the claim and values in range,
  and \<^verbatim>\<open>parse_time\<close> fails on it; the fragment \<^verbatim>\<open>2019-12-29 15:16:50\<close> does not have that
  shape, and \<^verbatim>\<open>parse_time\<close> returns a time. Both directions of the claim fail on the code.
\<close>

theorem parse_time_shape:
  "parse_time june docstring_line = Inl ValueError
   \<and> parse_time june iso_line
       = Inr \<lparr>year = 2024, month = 12, day = 29, hour = 15, minute = 16, second = 50\<rparr>"
  by code_simp

subsection \<open>What a dispatch stores and what it keeps\<close>

lemma finish_Inr:
  assumes "finish store now r c = Inr r'"
  shows "\<exists>t ex u. chunk_time now c = Inr t \<and> execTime r = Some ex \<and> parse_resources c = Inr u
           \<and> r' = (store t r)\<lparr>runTime := Some (run_seconds (datetime_sub t ex)), usage := Some u\<rparr>"
  using assms by (auto simp: finish_def split: sum.splits option.splits)

lemma handle_stores:
  assumes "handle ev now r c = Inr r'" and "time_field ev = Some get"
  shows "\<exists>t. chunk_time now c = Inr t \<and> get r' = Some t"
proof (cases ev)
  case Evicted
  with assms finish_Inr [of "\<lambda>t r. r\<lparr>evictTime := Some t\<rparr>" now r c r'] show ?thesis by auto
next
  case Terminated
  with assms finish_Inr [of "\<lambda>t r. r\<lparr>termTime := Some t\<rparr>" now r c r'] show ?thesis by auto
qed (use assms in \<open>auto split: sum.splits\<close>)

lemma handle_keeps:
  assumes "handle ev' now r c = Inr r'" and "time_field ev = Some get" and "ev' \<noteq> ev"
  shows "get r' = get r"
proof (cases ev')
  case Evicted
  with assms finish_Inr [of "\<lambda>t r. r\<lparr>evictTime := Some t\<rparr>" now r c r'] show ?thesis
    by (cases ev) auto
next
  case Terminated
  with assms finish_Inr [of "\<lambda>t r. r\<lparr>termTime := Some t\<rparr>" now r c r'] show ?thesis
    by (cases ev) auto
qed (use assms in \<open>cases ev; auto split: sum.splits\<close>)+

lemma handle_finishes:
  assumes "handle ev now r c = Inr r'" and "ev = Evicted \<or> ev = Terminated"
  shows "\<exists>t ex u. chunk_time now c = Inr t \<and> execTime r = Some ex \<and> parse_resources c = Inr u
           \<and> execTime r' = Some ex
           \<and> runTime r' = Some (run_seconds (datetime_sub t ex)) \<and> usage r' = Some u"
proof -
  from assms(2) show ?thesis
  proof
    assume "ev = Evicted"
    with assms finish_Inr [of "\<lambda>t r. r\<lparr>evictTime := Some t\<rparr>" now r c r'] show ?thesis by auto
  next
    assume "ev = Terminated"
    with assms finish_Inr [of "\<lambda>t r. r\<lparr>termTime := Some t\<rparr>" now r c r'] show ?thesis by auto
  qed
qed

lemma handle_keeps_run:
  assumes "handle ev now r c = Inr r'" and "ev \<noteq> Evicted" and "ev \<noteq> Terminated"
  shows "runTime r' = runTime r \<and> usage r' = usage r"
  using assms by (cases ev) (auto split: sum.splits)

lemma run_chunks_keeps:
  assumes "time_field ev = Some get"
  shows "run_chunks r cs = Inr r' \<Longrightarrow> \<forall>(n, x) \<in> set cs. event_of x \<noteq> Some ev \<Longrightarrow> get r' = get r"
proof (induction cs arbitrary: r)
  case Nil
  then show ?case by simp
next
  case (Cons a cs)
  obtain n x where a: "a = (n, x)" by (cases a)
  from Cons.prems(1) a obtain r1 where
    d: "dispatch n r x = Inr r1" and rest: "run_chunks r1 cs = Inr r'"
    by (auto split: sum.splits)
  have "get r1 = get r"
  proof (cases "event_of x")
    case None
    with d show ?thesis by (simp add: dispatch_event)
  next
    case (Some ev')
    with Cons.prems(2) a have "ev' \<noteq> ev" by auto
    with d Some assms show ?thesis
      using handle_keeps [of ev' n r x r1 ev get] by (simp add: dispatch_event)
  qed
  moreover have "get r' = get r1"
    using Cons.IH [OF rest] Cons.prems(2) by simp
  ultimately show ?case by simp
qed

lemma run_chunks_keeps_run:
  "run_chunks r cs = Inr r' \<Longrightarrow>
   \<forall>(n, x) \<in> set cs. event_of x \<noteq> Some Evicted \<and> event_of x \<noteq> Some Terminated \<Longrightarrow>
   runTime r' = runTime r \<and> usage r' = usage r"
proof (induction cs arbitrary: r)
  case Nil
  then show ?case by simp
next
  case (Cons a cs)
  obtain n x where a: "a = (n, x)" by (cases a)
  from Cons.prems(1) a obtain r1 where
    d: "dispatch n r x = Inr r1" and rest: "run_chunks r1 cs = Inr r'"
    by (auto split: sum.splits)
  have "runTime r1 = runTime r \<and> usage r1 = usage r"
  proof (cases "event_of x")
    case None
    with d show ?thesis by (simp add: dispatch_event)
  next
    case (Some ev')
    with Cons.prems(2) a have "ev' \<noteq> Evicted" "ev' \<noteq> Terminated" by auto
    with d Some show ?thesis
      using handle_keeps_run [of ev' n r x r1] by (simp add: dispatch_event)
  qed
  moreover have "runTime r' = runTime r1 \<and> usage r' = usage r1"
    using Cons.IH [OF rest] Cons.prems(2) by simp
  ultimately show ?case by simp
qed

lemma run_chunks_split:
  assumes "run_chunks r (cs1 @ (now, c) # cs2) = Inr r'"
  shows "\<exists>r1 r2. run_chunks r cs1 = Inr r1 \<and> dispatch now r1 c = Inr r2 \<and> run_chunks r2 cs2 = Inr r'"
  using assms by (auto simp: run_chunks_append split: sum.splits)

lemma last_time_wins:
  assumes "run_chunks r (cs1 @ (now, c) # cs2) = Inr r'"
    and "time_field ev = Some get" and "event_of c = Some ev"
    and "\<forall>(n, x) \<in> set cs2. event_of x \<noteq> Some ev"
  shows "\<exists>t. chunk_time now c = Inr t \<and> get r' = Some t"
proof -
  from run_chunks_split [OF assms(1)] obtain r1 r2 where
    d: "dispatch now r1 c = Inr r2" and rest: "run_chunks r2 cs2 = Inr r'"
    by blast
  from d assms(3) have "handle ev now r1 c = Inr r2"
    by (simp add: dispatch_event)
  from handle_stores [OF this assms(2)] obtain t where
    "chunk_time now c = Inr t" "get r2 = Some t" by blast
  moreover have "get r' = get r2"
    using run_chunks_keeps [OF assms(2) rest assms(4)] .
  ultimately show ?thesis by simp
qed

lemma last_run_wins:
  assumes "run_chunks r (cs1 @ (now, c) # cs2) = Inr r'"
    and "event_of c = Some Evicted \<or> event_of c = Some Terminated"
    and "\<forall>(n, x) \<in> set cs2. event_of x \<noteq> Some Evicted \<and> event_of x \<noteq> Some Terminated"
  shows "\<exists>r1 t ex u. run_chunks r cs1 = Inr r1 \<and> execTime r1 = Some ex
           \<and> chunk_time now c = Inr t \<and> parse_resources c = Inr u
           \<and> runTime r' = Some (run_seconds (datetime_sub t ex)) \<and> usage r' = Some u"
proof -
  from run_chunks_split [OF assms(1)] obtain r1 r2 where
    pre: "run_chunks r cs1 = Inr r1" and
    d: "dispatch now r1 c = Inr r2" and rest: "run_chunks r2 cs2 = Inr r'"
    by blast
  from assms(2) obtain ev where ev: "event_of c = Some ev" "ev = Evicted \<or> ev = Terminated"
    by auto
  with d have "handle ev now r1 c = Inr r2"
    by (simp add: dispatch_event)
  from handle_finishes [OF this ev(2)] obtain t ex u where
    "chunk_time now c = Inr t" "execTime r1 = Some ex" "parse_resources c = Inr u"
    "runTime r2 = Some (run_seconds (datetime_sub t ex))" "usage r2 = Some u"
    by blast
  moreover have "runTime r' = runTime r2 \<and> usage r' = usage r2"
    using run_chunks_keeps_run [OF rest assms(3)] .
  ultimately show ?thesis using pre by auto
qed

subsection \<open>Days and seconds\<close>

lemma div_step:
  assumes "0 < k"
  shows "(y::int) div k = (y - 1) div k + (if y mod k = 0 then 1 else 0)"
proof (cases "y mod k = 0")
  case True
  have "y = k * (y div k)"
    using True mult_div_mod_eq [of k y] by simp
  then have "y - 1 = k * (y div k - 1) + (k - 1)"
    by (simp add: right_diff_distrib)
  moreover have "0 \<le> k - 1" "k - 1 < k"
    using assms by simp_all
  ultimately have "(y - 1) div k = y div k - 1"
    by (rule int_div_pos_eq)
  with True show ?thesis by simp
next
  case False
  have "0 \<le> y mod k" "y mod k < k"
    using assms by simp_all
  with False have r: "0 \<le> y mod k - 1" "y mod k - 1 < k" by simp_all
  have "y - 1 = k * (y div k) + (y mod k - 1)"
    using mult_div_mod_eq [of k y] by simp
  then have "(y - 1) div k = y div k"
    using r by (rule int_div_pos_eq)
  with False show ?thesis by simp
qed

lemma mod_100_4: "(y::int) mod 100 = 0 \<Longrightarrow> y mod 4 = 0"
proof -
  assume "y mod 100 = 0"
  then have "100 dvd y" by (rule mod_0_imp_dvd)
  moreover have "(4::int) dvd 100" by simp
  ultimately have "4 dvd y" by (rule dvd_trans [rotated])
  then show ?thesis by (rule dvd_imp_mod_0)
qed

lemma mod_400_100: "(y::int) mod 400 = 0 \<Longrightarrow> y mod 100 = 0"
proof -
  assume "y mod 400 = 0"
  then have "400 dvd y" by (rule mod_0_imp_dvd)
  moreover have "(100::int) dvd 400" by simp
  ultimately have "100 dvd y" by (rule dvd_trans [rotated])
  then show ?thesis by (rule dvd_imp_mod_0)
qed
lemma days_before_year_next:
  "days_before_year (y + 1) = days_before_year y + (if is_leap y then 366 else 365)"
proof -
  define a b c where "a = (y - 1) div 4" and "b = (y - 1) div 100" and "c = (y - 1) div 400"
  define p q r :: int where "p = (if y mod 4 = 0 then 1 else 0)"
    and "q = (if y mod 100 = 0 then 1 else 0)" and "r = (if y mod 400 = 0 then 1 else 0)"
  have 4: "y div 4 = a + p"
    unfolding a_def p_def by (rule div_step) simp
  have 100: "y div 100 = b + q"
    unfolding b_def q_def by (rule div_step) simp
  have 400: "y div 400 = c + r"
    unfolding c_def r_def by (rule div_step) simp
  have old: "days_before_year y = (y - 1) * 365 + a - b + c"
    by (simp only: days_before_year_def Let_def a_def b_def c_def)
  have "days_before_year (y + 1) = y * 365 + y div 4 - y div 100 + y div 400"
    by (simp only: days_before_year_def Let_def add_diff_cancel_right')
  also have "\<dots> = y * 365 + (a + p) - (b + q) + (c + r)"
    by (simp only: 4 100 400)
  also have "\<dots> = days_before_year y + (365 + p - q + r)"
    by (simp only: old) (simp add: algebra_simps)
  also have "365 + p - q + r = (if is_leap y then 366 else 365)"
  proof (cases "y mod 4 = 0")
    case False
    have n100: "y mod 100 \<noteq> 0"
    proof
      assume "y mod 100 = 0"
      then have "y mod 4 = 0" by (rule mod_100_4)
      with False show False by (rule notE)
    qed
    have "y mod 400 \<noteq> 0"
    proof
      assume "y mod 400 = 0"
      then have "y mod 100 = 0" by (rule mod_400_100)
      with n100 show False by (rule notE)
    qed
    with False n100 show ?thesis
      by (simp only: p_def q_def r_def is_leap_def) simp
  next
    case True
    show ?thesis
    proof (cases "y mod 100 = 0")
      case False
      have "y mod 400 \<noteq> 0"
      proof
        assume "y mod 400 = 0"
        then have "y mod 100 = 0" by (rule mod_400_100)
        with False show False by (rule notE)
      qed
      with True False show ?thesis
        by (simp only: p_def q_def r_def is_leap_def) simp
    next
      case h: True
      with True show ?thesis
        by (cases "y mod 400 = 0") (simp_all only: p_def q_def r_def is_leap_def, simp_all)
    qed
  qed
  finally show ?thesis .
qed

lemma days_before_year_mono: "y \<le> y' \<Longrightarrow> days_before_year y \<le> days_before_year y'"
proof (induction y' rule: int_ge_induct)
  case base
  show ?case by (rule order_refl)
next
  case (step i)
  have "days_before_year i \<le> days_before_year (i + 1)"
    by (simp only: days_before_year_next split: if_splits) simp
  with step.IH show ?case by (rule order_trans)
qed
lemma days_before_month_next:
  assumes "1 \<le> m" and "m \<le> 11"
  shows "days_before_month y (m + 1) = days_before_month y m + days_in_month y m"
proof -
  from assms have "m = 1 \<or> m = 2 \<or> m = 3 \<or> m = 4 \<or> m = 5 \<or> m = 6 \<or> m = 7 \<or> m = 8 \<or> m = 9
         \<or> m = 10 \<or> m = 11"
    by arith
  then show ?thesis
    by (elim disjE) (simp_all add: days_before_month_def days_in_month_def)
qed

lemma days_before_month_mono:
  assumes "1 \<le> m" and "m \<le> m'" and "m' \<le> 12"
  shows "days_before_month y m \<le> days_before_month y m'"
proof -
  have "m' \<le> 12 \<longrightarrow> days_before_month y m \<le> days_before_month y m'"
    using assms(2)
  proof (induction m' rule: int_ge_induct)
    case base
    show ?case by simp
  next
    case (step i)
    have "0 \<le> days_in_month y i"
      by (simp add: days_in_month_def)
    with step assms(1) show ?case
      using days_before_month_next [of i y] by auto
  qed
  with assms(3) show ?thesis by simp
qed

lemma day_of_year_bounds:
  assumes "check_date_fields y m d"
  shows "1 \<le> days_before_month y m + d"
    and "days_before_month y m + d \<le> (if is_leap y then 366 else 365)"
proof -
  from assms have m: "1 \<le> m" "m \<le> 12" and d: "1 \<le> d" "d \<le> days_in_month y m"
    by (simp_all add: check_date_fields_def)
  have "0 = days_before_month y 1"
    by (simp add: days_before_month_def)
  also have "\<dots> \<le> days_before_month y m"
    using m by (intro days_before_month_mono) simp_all
  finally show "1 \<le> days_before_month y m + d"
    using d by simp
  show "days_before_month y m + d \<le> (if is_leap y then 366 else 365)"
  proof (cases "m = 12")
    case True
    with d show ?thesis
      by (simp add: days_before_month_def days_in_month_def)
  next
    case False
    with m have "m \<le> 11" by simp
    then have "days_before_month y m + d \<le> days_before_month y (m + 1)"
      using m d days_before_month_next [of m y] by simp
    also have "\<dots> \<le> days_before_month y 12"
      using m \<open>m \<le> 11\<close> by (intro days_before_month_mono) simp_all
    also have "\<dots> \<le> (if is_leap y then 366 else 365)"
      by (simp add: days_before_month_def)
    finally show ?thesis .
  qed
qed

lemma ymd2ord_strict:
  assumes a: "check_date_fields y m d" and b: "check_date_fields y' m' d'"
    and lt: "y < y' \<or> (y = y' \<and> (m < m' \<or> (m = m' \<and> d < d')))"
  shows "ymd2ord y m d < ymd2ord y' m' d'"
proof -
  consider "y < y'" | "y = y'" "m < m'" | "y = y'" "m = m'" "d < d'"
    using lt by blast
  then show ?thesis
  proof cases
    case 1
    have "ymd2ord y m d \<le> days_before_year y + (if is_leap y then 366 else 365)"
      using day_of_year_bounds(2) [OF a] by (simp add: ymd2ord_def)
    also have "\<dots> = days_before_year (y + 1)"
      by (simp add: days_before_year_next)
    also have "\<dots> \<le> days_before_year y'"
      using 1 by (intro days_before_year_mono) simp
    also have "\<dots> < ymd2ord y' m' d'"
      using day_of_year_bounds(1) [OF b] by (simp add: ymd2ord_def)
    finally show ?thesis .
  next
    case 2
    from a b have m: "1 \<le> m" "m' \<le> 12" and d: "d \<le> days_in_month y m" "1 \<le> d'"
      by (simp_all add: check_date_fields_def)
    from 2 m have "m \<le> 11" by simp
    then have "days_before_month y m + d \<le> days_before_month y (m + 1)"
      using m d days_before_month_next [of m y] by simp
    also have "\<dots> \<le> days_before_month y m'"
      using 2 m by (intro days_before_month_mono) simp_all
    finally show ?thesis
      using 2 d by (simp add: ymd2ord_def)
  next
    case 3
    then show ?thesis by (simp add: ymd2ord_def)
  qed
qed

lemma lex_step: "((x::int) < y \<or> x \<le> y \<and> P) = (x < y \<or> x = y \<and> P)"
  by auto

lemma epoch_seconds_strict:
  assumes a: "valid_datetime a" and b: "valid_datetime b"
    and lt: "(year a, month a, day a, hour a, minute a, second a)
               < (year b, month b, day b, hour b, minute b, second b)"
  shows "epoch_seconds a < epoch_seconds b"
proof -
  from a b have ta: "0 \<le> hour a" "hour a \<le> 23" "0 \<le> minute a" "minute a \<le> 59"
      "0 \<le> second a" "second a \<le> 59"
    and tb: "0 \<le> hour b" "hour b \<le> 23" "0 \<le> minute b" "minute b \<le> 59"
      "0 \<le> second b" "second b \<le> 59"
    by (simp_all add: valid_datetime_def check_time_fields_def)
  from a b have da: "check_date_fields (year a) (month a) (day a)"
    and db: "check_date_fields (year b) (month b) (day b)"
    by (simp_all add: valid_datetime_def)
  from lt have
    "year a < year b \<or> year a = year b \<and> (month a < month b \<or> month a = month b \<and>
       (day a < day b \<or> day a = day b \<and> (hour a < hour b \<or> hour a = hour b \<and>
          (minute a < minute b \<or> minute a = minute b \<and> second a < second b))))"
    by (simp only: less_prod_simp lex_step)
  then consider
    "year a < year b \<or> (year a = year b \<and> (month a < month b \<or> (month a = month b \<and> day a < day b)))"
  | "year a = year b \<and> month a = month b \<and> day a = day b \<and> hour a < hour b"
  | "year a = year b \<and> month a = month b \<and> day a = day b \<and> hour a = hour b
       \<and> minute a < minute b"
  | "year a = year b \<and> month a = month b \<and> day a = day b \<and> hour a = hour b
       \<and> minute a = minute b \<and> second a < second b"
    by blast
  then show ?thesis
  proof cases
    case 1
    from ymd2ord_strict [OF da db 1] have "toordinal a + 1 \<le> toordinal b"
      by (simp add: toordinal_def)
    then have "toordinal a * 86400 + 86400 \<le> toordinal b * 86400"
      by simp
    with ta tb show ?thesis
      by (simp add: epoch_seconds_def)
  next
    case 2
    then have "toordinal a = toordinal b" and "hour a + 1 \<le> hour b"
      by (simp_all add: toordinal_def)
    with ta tb show ?thesis
      by (simp add: epoch_seconds_def)
  next
    case 3
    then have "toordinal a = toordinal b" and "hour a = hour b" and "minute a + 1 \<le> minute b"
      by (simp_all add: toordinal_def)
    with ta tb show ?thesis
      by (simp add: epoch_seconds_def)
  next
    case 4
    then have "toordinal a = toordinal b" and "hour a = hour b" and "minute a = minute b"
      and "second a < second b"
      by (simp_all add: toordinal_def)
    then show ?thesis
      by (simp add: epoch_seconds_def)
  qed
qed

lemma datetime_le_epoch:
  assumes "valid_datetime a" and "valid_datetime b"
  shows "datetime_le a b \<longleftrightarrow> epoch_seconds a \<le> epoch_seconds b"
proof
  assume le: "datetime_le a b"
  show "epoch_seconds a \<le> epoch_seconds b"
  proof (cases "(year a, month a, day a, hour a, minute a, second a)
                  = (year b, month b, day b, hour b, minute b, second b)")
    case True
    then show ?thesis by (simp add: epoch_seconds_def toordinal_def)
  next
    case False
    with le have "(year a, month a, day a, hour a, minute a, second a)
               < (year b, month b, day b, hour b, minute b, second b)"
      unfolding datetime_le_def by (rule le_neq_trans)
    from epoch_seconds_strict [OF assms this] show ?thesis by (rule less_imp_le)
  qed
next
  assume le: "epoch_seconds a \<le> epoch_seconds b"
  show "datetime_le a b"
  proof (rule ccontr)
    assume "\<not> datetime_le a b"
    then have "(year b, month b, day b, hour b, minute b, second b)
               < (year a, month a, day a, hour a, minute a, second a)"
      unfolding datetime_le_def by (rule not_le [THEN iffD1])
    from epoch_seconds_strict [OF assms(2,1) this] le show False by simp
  qed
qed

lemma run_seconds_sub: "run_seconds (datetime_sub a b) = epoch_seconds a - epoch_seconds b"
  by (simp add: run_seconds_def datetime_sub_def mk_timedelta_def epoch_seconds_def algebra_simps)

subsection \<open>Reading a whole log\<close>

lemma read_log_report:
  assumes "fs p = Inr ls" and "read_log fs clock p = (out, Inr (Some r'))"
  shows "run_chunks (new_report p) (chunks_of clock 0 [] ls) = Inr r'"
  using assms by (auto simp: read_log_def read_lines_run_chunks split: sum.splits if_splits)

lemma two_runs_chunks:
  "chunks_of june_clock 0 [] two_runs_log
     = [(june, first_exec_chunk), (june, concat evict_lines), (june, second_exec_chunk)]
         @ (june, concat term_lines) # []"
  by (simp add: two_runs_log_def first_exec_chunk_def second_exec_chunk_def evict_lines_def
      term_lines_def sep_line_def june_clock_def)

lemma two_runs_times:
  "chunk_time june first_exec_chunk
     = Inr \<lparr>year = 2024, month = 5, day = 1, hour = 10, minute = 0, second = 0\<rparr>"
  "chunk_time june (concat evict_lines)
     = Inr \<lparr>year = 2024, month = 5, day = 1, hour = 10, minute = 0, second = 20\<rparr>"
  "chunk_time june second_exec_chunk
     = Inr \<lparr>year = 2024, month = 5, day = 1, hour = 10, minute = 1, second = 0\<rparr>"
  "chunk_time june (concat term_lines)
     = Inr \<lparr>year = 2024, month = 5, day = 1, hour = 10, minute = 1, second = 30\<rparr>"
  by code_simp+

lemma two_runs_events:
  "event_of first_exec_chunk = Some Executing"
  "event_of (concat evict_lines) = Some Evicted"
  "event_of second_exec_chunk = Some Executing"
  "event_of (concat term_lines) = Some Terminated"
  by (simp_all add: event_of_def event_codes_def first_exec_chunk_def second_exec_chunk_def
      evict_lines_def term_lines_def)

lemmas table_eval =
  parse_resources_def resources_line_def take_usage_def numbers_def split_ws_def isspace_def
  isdigit_def isdigit_char_def isdecimal_def int_of_digits_def digit_val_def first_item_def

lemma two_runs_usage:
  "parse_resources (concat evict_lines) = Inr [''diskUsage'' \<mapsto> 100, ''memUsage'' \<mapsto> 5]"
  "parse_resources (concat term_lines) = Inr [''diskUsage'' \<mapsto> 1024, ''memUsage'' \<mapsto> 512]"
  by (simp_all add: evict_lines_def term_lines_def table_eval)

lemma two_runs_seconds:
  "run_seconds (datetime_sub
      \<lparr>year = 2024, month = 5, day = 1, hour = 10, minute = 0, second = 20\<rparr>
      \<lparr>year = 2024, month = 5, day = 1, hour = 10, minute = 0, second = 0\<rparr>) = 20"
  "run_seconds (datetime_sub
      \<lparr>year = 2024, month = 5, day = 1, hour = 10, minute = 1, second = 30\<rparr>
      \<lparr>year = 2024, month = 5, day = 1, hour = 10, minute = 1, second = 0\<rparr>) = 30"
  by (simp_all add: run_seconds_sub epoch_seconds_def toordinal_def)

lemma two_runs_run:
  "run_chunks (new_report ''job1/process.log'')
     ([(june, first_exec_chunk), (june, concat evict_lines), (june, second_exec_chunk)]
         @ (june, concat term_lines) # []) = Inr two_runs_report"
  by (simp add: dispatch_event two_runs_events two_runs_times two_runs_usage two_runs_seconds
      finish_def new_report_def two_runs_report_def)

lemma two_runs_read:
  "read_log two_runs_fs june_clock ''job1/process.log'' = ([], Inr (Some two_runs_report))"
proof -
  have "two_runs_fs ''job1/process.log'' = Inr two_runs_log"
    by (simp add: two_runs_fs_def py_open_def)
  moreover have "read_lines june_clock 0 [] (new_report ''job1/process.log'') two_runs_log
                   = Inr two_runs_report"
    by (simp only: read_lines_run_chunks two_runs_chunks two_runs_run)
  ultimately show ?thesis
    by (simp only: read_log_def sum.case)
qed

text \<open>
  \<^bold>\<open>C8.\<close> Let a log be read without error, and let a chunk of it be the last one of its
  event kind. Then the field of that kind in the final report is the time resolved from
  that chunk. If the chunk is the last one that is an eviction or a termination, then
  \<^verbatim>\<open>runTime\<close> is computed from its time and the \<^verbatim>\<open>execTime\<close> stored when it was dispatched,
  and \<^verbatim>\<open>usage\<close> is its resource table: a termination after an eviction overwrites both.
\<close>

theorem last_write_wins:
  assumes "fs p = Inr ls"
    and "chunks_of clock 0 [] ls = cs1 @ (now, c) # cs2"
    and "read_log fs clock p = (out, Inr (Some r'))"
  shows "(\<forall>ev get. time_field ev = Some get \<and> event_of c = Some ev
              \<and> (\<forall>(n, x) \<in> set cs2. event_of x \<noteq> Some ev)
            \<longrightarrow> (\<exists>t. chunk_time now c = Inr t \<and> get r' = Some t))
       \<and> ((event_of c = Some Evicted \<or> event_of c = Some Terminated)
              \<and> (\<forall>(n, x) \<in> set cs2. event_of x \<noteq> Some Evicted \<and> event_of x \<noteq> Some Terminated)
            \<longrightarrow> (\<exists>r1 t ex u. run_chunks (new_report p) cs1 = Inr r1 \<and> execTime r1 = Some ex
                   \<and> chunk_time now c = Inr t \<and> parse_resources c = Inr u
                   \<and> runTime r' = Some (run_seconds (datetime_sub t ex))
                   \<and> usage r' = Some u))"
proof -
  have run: "run_chunks (new_report p) (cs1 @ (now, c) # cs2) = Inr r'"
    using read_log_report [OF assms(1,3)] assms(2) by simp
  show ?thesis
  proof (intro conjI allI impI)
    fix ev get
    assume "time_field ev = Some get \<and> event_of c = Some ev
              \<and> (\<forall>(n, x) \<in> set cs2. event_of x \<noteq> Some ev)"
    then show "\<exists>t. chunk_time now c = Inr t \<and> get r' = Some t"
      using last_time_wins [OF run, of ev get] by blast
  next
    assume "(event_of c = Some Evicted \<or> event_of c = Some Terminated)
              \<and> (\<forall>(n, x) \<in> set cs2. event_of x \<noteq> Some Evicted \<and> event_of x \<noteq> Some Terminated)"
    then show "\<exists>r1 t ex u. run_chunks (new_report p) cs1 = Inr r1 \<and> execTime r1 = Some ex
                   \<and> chunk_time now c = Inr t \<and> parse_resources c = Inr u
                   \<and> runTime r' = Some (run_seconds (datetime_sub t ex))
                   \<and> usage r' = Some u"
      using last_run_wins [OF run] by blast
  qed
qed

theorem last_write_wins_witness:
  "two_runs_fs ''job1/process.log'' = Inr two_runs_log
   \<and> chunks_of june_clock 0 [] two_runs_log
       = [(june, first_exec_chunk), (june, concat evict_lines), (june, second_exec_chunk)]
           @ (june, concat term_lines) # []
   \<and> read_log two_runs_fs june_clock ''job1/process.log'' = ([], Inr (Some two_runs_report))
   \<and> time_field Terminated = Some termTime
   \<and> event_of (concat term_lines) = Some Terminated
   \<and> (\<exists>t. chunk_time june (concat term_lines) = Inr t \<and> termTime two_runs_report = Some t)
   \<and> (\<exists>r1 t ex u.
         run_chunks (new_report ''job1/process.log'')
           [(june, first_exec_chunk), (june, concat evict_lines), (june, second_exec_chunk)] = Inr r1
       \<and> execTime r1 = Some ex
       \<and> chunk_time june (concat term_lines) = Inr t \<and> parse_resources (concat term_lines) = Inr u
       \<and> runTime two_runs_report = Some (run_seconds (datetime_sub t ex))
       \<and> usage two_runs_report = Some u)
   \<and> runTime two_runs_report = Some 30
   \<and> usage two_runs_report = Some [''diskUsage'' \<mapsto> 1024, ''memUsage'' \<mapsto> 512]"
proof -
  have 1: "two_runs_fs ''job1/process.log'' = Inr two_runs_log"
    by (simp add: two_runs_fs_def py_open_def)
  note W = last_write_wins [OF 1 two_runs_chunks two_runs_read]
  have 2: "time_field Terminated = Some termTime \<and> event_of (concat term_lines) = Some Terminated
           \<and> (\<forall>(n, x) \<in> set []. event_of x \<noteq> Some Terminated)"
    by (simp add: two_runs_events)
  have 3: "(event_of (concat term_lines) = Some Evicted \<or> event_of (concat term_lines) = Some Terminated)
           \<and> (\<forall>(n, x) \<in> set []. event_of x \<noteq> Some Evicted \<and> event_of x \<noteq> Some Terminated)"
    by (simp add: two_runs_events)
  note 4 = W [THEN conjunct1, THEN spec [where x = Terminated], THEN spec [where x = termTime],
      THEN mp, OF 2]
  note 5 = W [THEN conjunct2, THEN mp, OF 3]
  have 6: "runTime two_runs_report = Some 30"
    by (simp add: two_runs_report_def)
  have 7: "usage two_runs_report = Some [''diskUsage'' \<mapsto> 1024, ''memUsage'' \<mapsto> 512]"
    by (simp add: two_runs_report_def)
  show ?thesis
    by (intro conjI 1 two_runs_chunks two_runs_read 2 [THEN conjunct1]
        2 [THEN conjunct2, THEN conjunct1] 4 5 6 7)
qed

subsection \<open>The run time\<close>

lemma mk_datetime_valid: "mk_datetime y m d h mi s = Inr t \<Longrightarrow> valid_datetime t"
  by (auto simp: mk_datetime_def valid_datetime_def split: if_splits)

lemma parse_time_valid: "parse_time now line = Inr t \<Longrightarrow> valid_datetime t"
  unfolding parse_time_def Let_def replace_year_def
  by (auto split: sum.splits if_splits dest: mk_datetime_valid)

lemma chunk_time_valid: "chunk_time now chunk = Inr t \<Longrightarrow> valid_datetime t"
  unfolding chunk_time_def
  by (auto split: sum.splits dest: parse_time_valid)

lemma dispatch_execTime_valid:
  assumes "dispatch now r c = Inr r'" and "\<forall>t. execTime r = Some t \<longrightarrow> valid_datetime t"
  shows "\<forall>t. execTime r' = Some t \<longrightarrow> valid_datetime t"
proof (cases "event_of c")
  case None
  with assms show ?thesis by (simp add: dispatch_event)
next
  case (Some ev)
  with assms(1) have h: "handle ev now r c = Inr r'"
    by (simp add: dispatch_event)
  show ?thesis
  proof (cases "ev = Executing")
    case True
    with handle_stores [OF h, of execTime] obtain t where
      "chunk_time now c = Inr t" "execTime r' = Some t" by auto
    then show ?thesis by (auto dest: chunk_time_valid)
  next
    case False
    with handle_keeps [OF h, of Executing execTime] have "execTime r' = execTime r" by simp
    with assms(2) show ?thesis by simp
  qed
qed

lemma run_chunks_execTime_valid:
  "run_chunks r cs = Inr r' \<Longrightarrow> \<forall>t. execTime r = Some t \<longrightarrow> valid_datetime t \<Longrightarrow>
   \<forall>t. execTime r' = Some t \<longrightarrow> valid_datetime t"
proof (induction cs arbitrary: r)
  case Nil
  then show ?case by simp
next
  case (Cons a cs)
  obtain n x where a: "a = (n, x)" by (cases a)
  from Cons.prems(1) a obtain r1 where
    d: "dispatch n r x = Inr r1" and rest: "run_chunks r1 cs = Inr r'"
    by (auto split: sum.splits)
  from Cons.IH [OF rest dispatch_execTime_valid [OF d Cons.prems(2)]] show ?case .
qed

lemma last_chunk_run_time:
  assumes run: "run_chunks r (cs @ [(now, c)]) = Inr r'"
    and c: "startswith ''004'' c \<or> startswith ''005'' c"
    and v: "\<forall>t. execTime r = Some t \<longrightarrow> valid_datetime t"
  shows "\<exists>t ex. (if startswith ''004'' c then evictTime r' else termTime r') = Some t
           \<and> chunk_time now c = Inr t \<and> execTime r' = Some ex
           \<and> runTime r' = Some (epoch_seconds t - epoch_seconds ex)
           \<and> (0 \<le> epoch_seconds t - epoch_seconds ex \<longleftrightarrow> datetime_le ex t)"
proof -
  from run obtain r1 where pre: "run_chunks r cs = Inr r1" and d: "dispatch now r1 c = Inr r'"
    by (auto simp: run_chunks_append split: sum.splits)
  from c d obtain store where
    f: "finish store now r1 c = Inr r'" and
    s: "\<And>t q. (if startswith ''004'' c then evictTime (store t q) else termTime (store t q)) = Some t"
       "\<And>t q. execTime (store t q) = execTime q"
    by (auto simp: dispatch_def startswith3 split: if_splits)
  from finish_Inr [OF f] obtain t ex u where
    t: "chunk_time now c = Inr t" and ex: "execTime r1 = Some ex" and
    r': "r' = (store t r1)\<lparr>runTime := Some (run_seconds (datetime_sub t ex)), usage := Some u\<rparr>"
    by blast
  have "valid_datetime t"
    using t by (rule chunk_time_valid)
  moreover have "valid_datetime ex"
    using run_chunks_execTime_valid [OF pre v] ex by simp
  ultimately have "datetime_le ex t \<longleftrightarrow> epoch_seconds ex \<le> epoch_seconds t"
    by (intro datetime_le_epoch)
  moreover have "(if startswith ''004'' c then evictTime r' else termTime r') = Some t"
    using s(1) [of t r1] by (simp add: r' split: if_splits)
  moreover have "execTime r' = Some ex"
    using s(2) [of t r1] ex by (simp add: r')
  moreover have "runTime r' = Some (epoch_seconds t - epoch_seconds ex)"
    by (simp add: r' run_seconds_sub)
  ultimately show ?thesis
    using t by auto
qed

text \<open>
  \<^bold>\<open>C3\<close>, as the code has it. When a log is read without error and the last chunk that
  is dispatched starts with 004 or 005, the final report holds the time resolved from
  that chunk (under \<^verbatim>\<open>evictTime\<close> for 004, \<^verbatim>\<open>termTime\<close> for 005) and an \<^verbatim>\<open>execTime\<close>, and
  \<^verbatim>\<open>runTime\<close> is exactly the number of seconds from the one to the other, both as resolved
  by \<^verbatim>\<open>parse_time\<close>. It is not negative exactly when the resolved \<^verbatim>\<open>execTime\<close> is not
  later than the resolved terminal time.
\<close>

theorem run_time_of_last_chunk:
  assumes "fs p = Inr ls"
    and "chunks_of clock 0 [] ls = cs @ [(now, c)]"
    and "startswith ''004'' c \<or> startswith ''005'' c"
    and "read_log fs clock p = (out, Inr (Some r'))"
  shows "\<exists>t ex. (if startswith ''004'' c then evictTime r' else termTime r') = Some t
           \<and> chunk_time now c = Inr t \<and> execTime r' = Some ex
           \<and> runTime r' = Some (epoch_seconds t - epoch_seconds ex)
           \<and> (0 \<le> epoch_seconds t - epoch_seconds ex \<longleftrightarrow> datetime_le ex t)"
proof -
  have "run_chunks (new_report p) (cs @ [(now, c)]) = Inr r'"
    using read_log_report [OF assms(1,4)] assms(2) by simp
  moreover have "\<forall>t. execTime (new_report p) = Some t \<longrightarrow> valid_datetime t"
    by (simp add: new_report_def)
  ultimately show ?thesis
    using assms(3) by (intro last_chunk_run_time)
qed
theorem run_time_of_last_chunk_witness:
  "two_runs_fs ''job1/process.log'' = Inr two_runs_log
   \<and> chunks_of june_clock 0 [] two_runs_log
       = [(june, first_exec_chunk), (june, concat evict_lines), (june, second_exec_chunk)]
           @ [(june, concat term_lines)]
   \<and> (startswith ''004'' (concat term_lines) \<or> startswith ''005'' (concat term_lines))
   \<and> read_log two_runs_fs june_clock ''job1/process.log'' = ([], Inr (Some two_runs_report))
   \<and> (\<exists>t ex. (if startswith ''004'' (concat term_lines)
                then evictTime two_runs_report else termTime two_runs_report) = Some t
           \<and> chunk_time june (concat term_lines) = Inr t \<and> execTime two_runs_report = Some ex
           \<and> runTime two_runs_report = Some (epoch_seconds t - epoch_seconds ex)
           \<and> (0 \<le> epoch_seconds t - epoch_seconds ex \<longleftrightarrow> datetime_le ex t))
   \<and> runTime two_runs_report = Some 30"
proof -
  have 1: "two_runs_fs ''job1/process.log'' = Inr two_runs_log"
    by (simp add: two_runs_fs_def py_open_def)
  have 2: "startswith ''004'' (concat term_lines) \<or> startswith ''005'' (concat term_lines)"
    by (simp add: term_lines_def)
  have 3: "runTime two_runs_report = Some 30"
    by (simp add: two_runs_report_def)
  show ?thesis
    by (intro conjI 1 2 3 two_runs_chunks two_runs_read
        run_time_of_last_chunk [OF 1 two_runs_chunks 2 two_runs_read])
qed

text \<open>
  \<^bold>\<open>C3\<close>, as the claim states it, fails. The log below has a 001 chunk and ends in a 005
  chunk; its two times, 2023-11-30 23:59:50 and 2023-12-01 00:00:10, are in chronological
  order, twenty seconds apart. Read on 2024-01-05, the November time is resolved to the
  year 2024 and the December time to the year 2023, and \<^verbatim>\<open>runTime\<close> is negative.
\<close>

theorem year_end_counterexample:
  "map_sum id (map_option runTime) (snd (read_log year_end_fs january_clock ''job2/process.log''))
     = Inr (Some (Some (- 31622380)))
   \<and> map_sum id (map_option execTime) (snd (read_log year_end_fs january_clock ''job2/process.log''))
     = Inr (Some (Some \<lparr>year = 2024, month = 11, day = 30, hour = 23, minute = 59, second = 50\<rparr>))
   \<and> map_sum id (map_option termTime) (snd (read_log year_end_fs january_clock ''job2/process.log''))
     = Inr (Some (Some \<lparr>year = 2023, month = 12, day = 1, hour = 0, minute = 0, second = 10\<rparr>))
   \<and> strptime ''2023-11-30 23:59:50''
     = Inr \<lparr>year = 2023, month = 11, day = 30, hour = 23, minute = 59, second = 50\<rparr>
   \<and> strptime ''2023-12-01 00:00:10''
     = Inr \<lparr>year = 2023, month = 12, day = 1, hour = 0, minute = 0, second = 10\<rparr>
   \<and> datetime_le \<lparr>year = 2023, month = 11, day = 30, hour = 23, minute = 59, second = 50\<rparr>
        \<lparr>year = 2023, month = 12, day = 1, hour = 0, minute = 0, second = 10\<rparr>"
  by code_simp

end
